theory Spec2Isabelle
  imports Complex_Main
begin

section \<open>The GPU mechanism instance of arbor: instantiation and memory layout\<close>

text \<open>
  A shallow embedding of \<^verbatim>\<open>arbor/backends/gpu/mechanism.cpp\<close>. The member
  functions of \<^verbatim>\<open>arb::gpu::mechanism\<close> become functions on a record of the object's
  members; an exception becomes a value of type \<open>error\<close> on the left of a sum; a device
  buffer becomes the list of its cells and a pointer into it the offset of a cell.
  Sizes and offsets are natural numbers: the counters of the source are unsigned and the
  model does not bound them.
\<close>

subsection \<open>Values, pointers and errors\<close>

text \<open>
  \<^verbatim>\<open>arb_value_type\<close> is a floating-point number. The model keeps what the code of
  this file does with one: it stores it, copies it, and multiplies it by an integer.
  \<open>Val x\<close> is a number, \<open>NaN\<close> the fill value of a new value buffer, and \<open>Uninit\<close>
  the content of a cell that was allocated and never written.
\<close>

datatype fval = Uninit | NaN | Val real

text \<open>
  The product \<^verbatim>\<open>s[i] *= p[i]\<close> of a value cell and an index cell. An index cell is
  \<open>Some m\<close> once written and \<open>None\<close> before.
\<close>

fun fmul :: "fval \<Rightarrow> int option \<Rightarrow> fval" where
  "fmul (Val x) (Some m) = Val (x * of_int m)"
| "fmul NaN (Some m) = NaN"
| "fmul v _ = Uninit"

text \<open>The three pointer tables that are mirrored on the device.\<close>

datatype table = Parameters_d | State_vars_d | Ion_states_d

text \<open>
  A device pointer: \<open>Unset\<close> is a pointer slot that was allocated and never assigned,
  \<open>Null\<close> the null pointer, \<open>Shared_at a\<close> an address inside the shared state of
  the cell group, \<open>Data_at k\<close> the cell \<open>k\<close> of the value buffer \<^verbatim>\<open>data_\<close>, \<open>Index_at k\<close> the cell \<open>k\<close> of
  the index buffer \<^verbatim>\<open>indices_\<close>, and \<open>Table_at t\<close> the start of a device-side
  pointer table.
\<close>

datatype dptr = Unset | Null | Shared_at nat | Data_at nat | Index_at nat | Table_at table

text \<open>
  The two \<^verbatim>\<open>arbor_internal_error\<close>s of \<^verbatim>\<open>instantiate\<close> are told apart by their
  message: \<open>Missing_ion\<close> is "mechanism holds ion with no corresponding shared state",
  \<open>No_such_global k\<close> is "no such mechanism global 'k'". The other three are not
  exceptions of the source. \<open>Buffer_overrun\<close> marks a copy or fill whose destination
  view leaves its buffer, \<open>Bad_access\<close> a kernel that dereferences a pointer outside a
  buffer, and \<open>Join_precondition\<close> a call of the index join with a needle that the
  haystack does not hold.
\<close>

datatype error =
    Missing_ion
  | No_such_global string
  | Join_precondition
  | Buffer_overrun
  | Bad_access

subsection \<open>Schema, placement, overrides and shared state\<close>

text \<open>
  \<^verbatim>\<open>mech_\<close> is the mechanism type: arrays of parameters, state variables, globals and
  ions, each with its count. An array with its count is a list, so \<^verbatim>\<open>mech_.n_globals\<close>
  is \<open>length (mech_globals mt)\<close>.
\<close>

record arb_field_info =
  name :: string
  default_value :: fval

record arb_ion_info =
  ion_name :: string

record arb_mechanism_type =
  mech_parameters :: "arb_field_info list"
  mech_state_vars :: "arb_field_info list"
  mech_globals :: "arb_field_info list"
  mech_ions :: "arb_ion_info list"

record mechanism_layout =
  cv :: "int list"
  weight :: "fval list"
  multiplicity :: "int list"

text \<open>
  \<^verbatim>\<open>mechanism_overrides\<close> holds two hash maps. \<^verbatim>\<open>instantiate\<close> iterates over
  \<^verbatim>\<open>globals\<close>, so it is the list of its entries in iteration order; it only looks
  keys up in \<^verbatim>\<open>ion_rebind\<close>, so that one is a map.
\<close>

record mechanism_overrides =
  overrides_globals :: "(string \<times> fval) list"
  ion_rebind :: "string \<rightharpoonup> string"

text \<open>
  The state of one ion in the shared state: the start of each of its five device arrays
  and, on the host side, the content of its own node index.
\<close>

record ion_state =
  iX :: dptr
  eX :: dptr
  Xi :: dptr
  Xo :: dptr
  charge :: dptr
  node_index :: "int list"

record shared_state =
  shared_cv_to_cell :: dptr
  shared_cv_to_intdom :: dptr
  shared_dt_cv :: dptr
  shared_voltage :: dptr
  shared_current_density :: dptr
  shared_conductivity :: dptr
  shared_temperature_degC :: dptr
  shared_diam_um :: dptr
  shared_time_since_spike :: dptr
  shared_n_detector :: nat
  shared_time :: dptr
  shared_deliverable_events :: dptr
  ion_data :: "string \<rightharpoonup> ion_state"

subsection \<open>The instance\<close>

text \<open>
  \<^verbatim>\<open>arb_ion_state\<close> is declared in the mechanism ABI header, which is not among the
  sources. \<^verbatim>\<open>instantiate\<close> builds one from five pointers by position and assigns
  \<open>index\<close> by name afterwards; \<^verbatim>\<open>ion_table\<close> reads four of the fields by name. The
  record lists the fields in the order in which the five initialisers
  \<^verbatim>\<open>iX_, eX_, Xi_, Xo_, charge\<close> are given, with the slot of \<^verbatim>\<open>eX_\<close>, which this
  file never reads, named after the reversal potential it holds.
\<close>

record arb_ion_state =
  current_density :: dptr
  reversal_potential :: dptr
  internal_concentration :: dptr
  external_concentration :: dptr
  ionic_charge :: dptr
  index :: dptr

record ion_state_view =
  view_current_density :: dptr
  view_external_concentration :: dptr
  view_internal_concentration :: dptr
  view_ionic_charge :: dptr

record arb_mechanism_ppack =
  ppack_width :: nat
  ppack_mechanism_id :: nat
  ppack_vec_ci :: dptr
  ppack_vec_di :: dptr
  ppack_vec_dt :: dptr
  ppack_vec_v :: dptr
  ppack_vec_i :: dptr
  ppack_vec_g :: dptr
  ppack_temperature_degC :: dptr
  ppack_diam_um :: dptr
  ppack_time_since_spike :: dptr
  ppack_n_detectors :: nat
  ppack_vec_t :: dptr
  ppack_weight :: dptr
  ppack_node_index :: dptr
  ppack_multiplicity :: dptr
  ppack_parameters :: dptr
  ppack_state_vars :: dptr
  ppack_ion_states :: dptr
  ppack_globals :: dptr

text \<open>The members of \<^verbatim>\<open>arb::gpu::mechanism\<close> that this file reads or writes.\<close>

record mechanism =
  mech :: arb_mechanism_type
  mult_in_place :: bool
  width :: nat
  width_padded :: nat
  num_ions :: nat
  vec_t_ptr :: dptr
  event_stream_ptr :: dptr
  ppack :: arb_mechanism_ppack
  state_vars_h :: "dptr list"
  parameters_h :: "dptr list"
  ion_states_h :: "arb_ion_state list"
  globals_h :: "fval list"
  data :: "fval list"
  indices :: "int option list"
  parameters_d :: "dptr list"
  state_vars_d :: "dptr list"
  ion_states_d :: "arb_ion_state list"


subsection \<open>Memory primitives\<close>

text \<open>
  The element alignments \<^verbatim>\<open>array::alignment()\<close> and \<^verbatim>\<open>iarray::alignment()\<close> are
  constants of the memory library; the model takes them as parameters.
\<close>

record backend =
  array_alignment :: nat
  iarray_alignment :: nat

text \<open>
  Modelled from the spec: \<^verbatim>\<open>math::round_up\<close> is declared in \<^verbatim>\<open>arbor/math.hpp\<close>, which
  is not among the sources. The spec (section 8): "for any width and alignment k,
  width_padded is the smallest multiple of k that is >= width".
\<close>

definition round_up :: "nat \<Rightarrow> nat \<Rightarrow> nat" where
  "round_up v b = (if v mod b = 0 then v else v - v mod b + b)"

text \<open>
  A copy or a fill has a destination view \<^verbatim>\<open>device_view(ptr, n)\<close>: the \<open>n\<close> cells
  from \<open>ptr\<close> on. \<open>device_write buf ptr xs\<close> stores \<open>xs\<close> in the cells of that view,
  and is a \<open>Buffer_overrun\<close> when the view does not lie inside the buffer.
\<close>

definition device_write :: "'a list \<Rightarrow> nat \<Rightarrow> 'a list \<Rightarrow> error + 'a list" where
  "device_write buf ptr xs =
     (if ptr + length xs \<le> length buf
      then Inr (take ptr buf @ xs @ drop (ptr + length xs) buf)
      else Inl Buffer_overrun)"

text \<open>
  Modelled from the spec: \<^verbatim>\<open>memory::copy\<close> is part of the memory library, which is not
  among the sources. The spec (section 4.2): append-chunk "copies width elements from a
  host-resident source sequence into the buffer at the current offset". \<open>copy_source n
  pad xs\<close> is what arrives in the \<open>n\<close> cells of the view; where the source is shorter
  than the view, the cells past its end hold \<open>pad\<close>, the indeterminate value.
\<close>

definition copy_source :: "nat \<Rightarrow> 'a \<Rightarrow> 'a list \<Rightarrow> 'a list" where
  "copy_source n pad xs = take n xs @ replicate (n - length xs) pad"

text \<open>
  The two lambdas of \<^verbatim>\<open>instantiate\<close>, both capturing \<^verbatim>\<open>n = width_\<close>. Each returns the
  buffer, the pointer recorded in \<^verbatim>\<open>out\<close> and the advanced \<^verbatim>\<open>ptr\<close>.
\<close>

definition append_chunk ::
  "nat \<Rightarrow> 'a \<Rightarrow> 'a list \<Rightarrow> 'a list \<Rightarrow> nat \<Rightarrow> error + ('a list \<times> nat \<times> nat)" where
  "append_chunk n pad inp buf ptr =
     (case device_write buf ptr (copy_source n pad inp) of
        Inl e \<Rightarrow> Inl e
      | Inr buf' \<Rightarrow> Inr (buf', ptr, ptr + n))"

definition append_const ::
  "nat \<Rightarrow> 'a \<Rightarrow> 'a list \<Rightarrow> nat \<Rightarrow> error + ('a list \<times> nat \<times> nat)" where
  "append_const n inp buf ptr =
     (case device_write buf ptr (replicate n inp) of
        Inl e \<Rightarrow> Inl e
      | Inr buf' \<Rightarrow> Inr (buf', ptr, ptr + n))"

subsection \<open>The index join\<close>

text \<open>
  Modelled from the spec: \<^verbatim>\<open>util::index_into\<close> is declared in
  \<^verbatim>\<open>util/index_into.hpp\<close>, which is not among the sources. The spec (section 4.1):
  "given sequence A (the needles) and sequence B (the haystack), produce sequence C of the
  same length as A where C[k] is the position in B at which A[k] occurs. Precondition:
  every element of A must occur in B". \<open>position_in a B\<close> is the first position of
  \<open>a\<close> in \<open>B\<close>; the join is \<open>None\<close> when the precondition fails.
\<close>

fun position_in :: "'a \<Rightarrow> 'a list \<Rightarrow> nat option" where
  "position_in a [] = None"
| "position_in a (b # bs) = (if a = b then Some 0 else map_option Suc (position_in a bs))"

fun index_into :: "'a list \<Rightarrow> 'a list \<Rightarrow> nat list option" where
  "index_into [] B = Some []"
| "index_into (a # A) B =
     (case position_in a B of
        None \<Rightarrow> None
      | Some k \<Rightarrow> map_option ((#) k) (index_into A B))"

subsection \<open>Ion binding\<close>

text \<open>\<^verbatim>\<open>value_by_key(overrides.ion_rebind, ion).value_or(ion)\<close>\<close>

definition ion_binding_of :: "mechanism_overrides \<Rightarrow> string \<Rightarrow> string" where
  "ion_binding_of overrides ion =
     (case ion_rebind overrides ion of Some b \<Rightarrow> b | None \<Rightarrow> ion)"

text \<open>An element of a new \<^verbatim>\<open>host_vector<arb_ion_state>\<close>: no field assigned.\<close>

definition unassigned_ion_state :: arb_ion_state where
  "unassigned_ion_state =
     \<lparr>current_density = Unset, reversal_potential = Unset, internal_concentration = Unset,
      external_concentration = Unset, ionic_charge = Unset, index = Unset\<rparr>"

text \<open>
  The braced initialiser of line 94: five pointers into the ion's shared state, by
  position, and a null \<open>index\<close>.
\<close>

definition braced_ion_state :: "ion_state \<Rightarrow> arb_ion_state" where
  "braced_ion_state oion =
     \<lparr>current_density = iX oion, reversal_potential = eX oion,
      internal_concentration = Xi oion, external_concentration = Xo oion,
      ionic_charge = charge oion, index = Null\<rparr>"

text \<open>
  The loop "Set ion views" (lines 89-95), at index \<open>idx\<close> with the ions that are left.
\<close>

fun set_ion_views ::
  "shared_state \<Rightarrow> mechanism_overrides \<Rightarrow> arb_ion_info list \<Rightarrow> nat
     \<Rightarrow> arb_ion_state list \<Rightarrow> error + arb_ion_state list" where
  "set_ion_views shared overrides [] idx ish = Inr ish"
| "set_ion_views shared overrides (i # rest) idx ish =
     (case ion_data shared (ion_binding_of overrides (ion_name i)) of
        None \<Rightarrow> Inl Missing_ion
      | Some oion \<Rightarrow>
          set_ion_views shared overrides rest (Suc idx) (ish[idx := braced_ion_state oion]))"

subsection \<open>The value buffer\<close>

text \<open>
  The two loops over parameters and state variables (lines 121-126): one constant-filled
  chunk per field, its start recorded in the host table at \<open>idx\<close>. The state is the
  buffer, \<^verbatim>\<open>base_ptr\<close> and the table.
\<close>

fun append_fields ::
  "nat \<Rightarrow> arb_field_info list \<Rightarrow> nat \<Rightarrow> fval list \<times> nat \<times> dptr list
     \<Rightarrow> error + (fval list \<times> nat \<times> dptr list)" where
  "append_fields n [] idx s = Inr s"
| "append_fields n (f # rest) idx (buf, ptr, tab) =
     (case append_const n (default_value f) buf ptr of
        Inl e \<Rightarrow> Inl e
      | Inr (buf', out, ptr') \<Rightarrow>
          append_fields n rest (Suc idx) (buf', ptr', tab[idx := Data_at out]))"

text \<open>Line 128: every global starts at its default value.\<close>

fun assign_defaults :: "arb_field_info list \<Rightarrow> nat \<Rightarrow> fval list \<Rightarrow> fval list" where
  "assign_defaults [] idx gh = gh"
| "assign_defaults (g # rest) idx gh = assign_defaults rest (Suc idx) (gh[idx := default_value g])"

text \<open>
  The inner loop of lines 131-138 for one override \<open>(k, v)\<close>, at index \<open>idx\<close> with the
  globals that are left. A match assigns and leaves the loop; the test of \<open>found\<close>
  stands inside the loop body, after the test of the name.
\<close>

fun override_scan ::
  "arb_field_info list \<Rightarrow> nat \<Rightarrow> string \<Rightarrow> fval \<Rightarrow> bool \<Rightarrow> fval list \<Rightarrow> error + fval list" where
  "override_scan [] idx k v found gh = Inr gh"
| "override_scan (g # rest) idx k v found gh =
     (if name g = k then Inr (gh[idx := v])
      else if \<not> found then Inl (No_such_global k)
      else override_scan rest (Suc idx) k v found gh)"

text \<open>The outer loop of lines 129-139 over the entries of \<^verbatim>\<open>overrides.globals\<close>.\<close>

fun apply_overrides ::
  "arb_field_info list \<Rightarrow> (string \<times> fval) list \<Rightarrow> fval list \<Rightarrow> error + fval list" where
  "apply_overrides gs [] gh = Inr gh"
| "apply_overrides gs ((k, v) # rest) gh =
     (case override_scan gs 0 k v False gh of
        Inl e \<Rightarrow> Inl e
      | Inr gh' \<Rightarrow> apply_overrides gs rest gh')"

text \<open>
  The block of lines 113-143. It returns the instance and the final \<^verbatim>\<open>base_ptr\<close>.
\<close>

definition value_count :: "mechanism \<Rightarrow> nat" where
  "value_count m =
     (length (mech_state_vars (mech m)) + length (mech_parameters (mech m)) + 1) * width_padded m
       + length (mech_globals (mech m))"

definition pack_values ::
  "mechanism_overrides \<Rightarrow> mechanism_layout \<Rightarrow> mechanism \<Rightarrow> error + (mechanism \<times> nat)" where
  "pack_values overrides pos_data m =
     (case append_chunk (width m) Uninit (weight pos_data) (replicate (value_count m) NaN) 0 of
        Inl e \<Rightarrow> Inl e
      | Inr (d1, weight_out, p1) \<Rightarrow>
     (case append_fields (width m) (mech_parameters (mech m)) 0 (d1, p1, parameters_h m) of
        Inl e \<Rightarrow> Inl e
      | Inr (d2, p2, par_h) \<Rightarrow>
     (case append_fields (width m) (mech_state_vars (mech m)) 0 (d2, p2, state_vars_h m) of
        Inl e \<Rightarrow> Inl e
      | Inr (d3, p3, sv_h) \<Rightarrow>
     (case apply_overrides (mech_globals (mech m)) (overrides_globals overrides)
             (assign_defaults (mech_globals (mech m)) 0 (globals_h m)) of
        Inl e \<Rightarrow> Inl e
      | Inr gh \<Rightarrow>
     (case device_write d3 p3 (copy_source (length (mech_globals (mech m))) Uninit gh) of
        Inl e \<Rightarrow> Inl e
      | Inr d4 \<Rightarrow>
          Inr (m\<lparr>data := d4, parameters_h := par_h, state_vars_h := sv_h, globals_h := gh,
                 ppack := (ppack m)\<lparr>ppack_weight := Data_at weight_out,
                                      ppack_globals := Data_at p3\<rparr>\<rparr>,
               p3 + length (mech_globals (mech m))))))))"

subsection \<open>The index buffer\<close>

text \<open>
  The loop "Create ion indices" (lines 154-166): the ion is looked up again, the
  placement's sites are joined against the ion's own node index, and the joined chunk is
  appended; its start goes to the \<open>index\<close> field of the ion's record.
\<close>

fun append_ion_indices ::
  "shared_state \<Rightarrow> mechanism_overrides \<Rightarrow> mechanism_layout \<Rightarrow> nat \<Rightarrow> arb_ion_info list \<Rightarrow> nat
     \<Rightarrow> int option list \<times> nat \<times> arb_ion_state list
     \<Rightarrow> error + (int option list \<times> nat \<times> arb_ion_state list)" where
  "append_ion_indices shared overrides pos_data n [] idx s = Inr s"
| "append_ion_indices shared overrides pos_data n (i # rest) idx (buf, ptr, ish) =
     (case ion_data shared (ion_binding_of overrides (ion_name i)) of
        None \<Rightarrow> Inl Missing_ion
      | Some oion \<Rightarrow>
     (case index_into (cv pos_data) (node_index oion) of
        None \<Rightarrow> Inl Join_precondition
      | Some joined \<Rightarrow>
     (case append_chunk n None (map (\<lambda>k. Some (int k)) joined) buf ptr of
        Inl e \<Rightarrow> Inl e
      | Inr (buf', out, ptr') \<Rightarrow>
          append_ion_indices shared overrides pos_data n rest (Suc idx)
            (buf', ptr', ish[idx := (ish ! idx)\<lparr>index := Index_at out\<rparr>]))))"

definition index_count :: "mechanism \<Rightarrow> nat" where
  "index_count m =
     ((if mult_in_place m then 1 else 0) + length (mech_ions (mech m)) + 1) * width_padded m"

text \<open>
  The block of lines 146-169. It returns the instance and the final \<^verbatim>\<open>base_ptr\<close>.
\<close>

definition pack_indices ::
  "shared_state \<Rightarrow> mechanism_overrides \<Rightarrow> mechanism_layout \<Rightarrow> mechanism
     \<Rightarrow> error + (mechanism \<times> nat)" where
  "pack_indices shared overrides pos_data m =
     (case append_chunk (width m) None (map Some (cv pos_data))
             (replicate (index_count m) None) 0 of
        Inl e \<Rightarrow> Inl e
      | Inr (i1, node_out, p1) \<Rightarrow>
     (case append_ion_indices shared overrides pos_data (width m) (mech_ions (mech m)) 0
             (i1, p1, ion_states_h m) of
        Inl e \<Rightarrow> Inl e
      | Inr (i2, p2, ish) \<Rightarrow>
          if mult_in_place m
          then (case append_chunk (width m) None (map Some (multiplicity pos_data)) i2 p2 of
                  Inl e \<Rightarrow> Inl e
                | Inr (i3, mult_out, p3) \<Rightarrow>
                    Inr (m\<lparr>indices := i3, ion_states_h := ish,
                           ppack := (ppack m)\<lparr>ppack_node_index := Index_at node_out,
                                                ppack_multiplicity := Index_at mult_out\<rparr>\<rparr>,
                         p3))
          else Inr (m\<lparr>indices := i2, ion_states_h := ish,
                      ppack := (ppack m)\<lparr>ppack_node_index := Index_at node_out\<rparr>\<rparr>,
                    p2)))"

subsection \<open>instantiate\<close>

text \<open>Lines 172-181: the three host tables are copied to the device.\<close>

definition upload :: "mechanism \<Rightarrow> mechanism" where
  "upload m =
     m\<lparr>parameters_d := parameters_h m,
       state_vars_d := state_vars_h m,
       ion_states_d := ion_states_h m,
       ppack := (ppack m)\<lparr>ppack_parameters := Table_at Parameters_d,
                            ppack_state_vars := Table_at State_vars_d,
                            ppack_ion_states := Table_at Ion_states_d\<rparr>\<rparr>"

text \<open>
  Lines 58-86: the scalar members, the views onto shared state, the new host tables. Each
  host table is allocated here with one entry per schema entry, so every index at which
  the loops below assign an entry lies inside its table.
\<close>

definition set_internal ::
  "backend \<Rightarrow> nat \<Rightarrow> shared_state \<Rightarrow> mechanism_layout \<Rightarrow> mechanism \<Rightarrow> mechanism" where
  "set_internal be ident shared pos_data this =
     this\<lparr>mult_in_place := (multiplicity pos_data \<noteq> []),
          width := length (cv pos_data),
          num_ions := length (mech_ions (mech this)),
          vec_t_ptr := shared_time shared,
          event_stream_ptr := shared_deliverable_events shared,
          width_padded :=
            round_up (length (cv pos_data)) (max (array_alignment be) (iarray_alignment be)),
          ppack := (ppack this)\<lparr>ppack_width := length (cv pos_data),
                                   ppack_mechanism_id := ident,
                                   ppack_vec_ci := shared_cv_to_cell shared,
                                   ppack_vec_di := shared_cv_to_intdom shared,
                                   ppack_vec_dt := shared_dt_cv shared,
                                   ppack_vec_v := shared_voltage shared,
                                   ppack_vec_i := shared_current_density shared,
                                   ppack_vec_g := shared_conductivity shared,
                                   ppack_temperature_degC := shared_temperature_degC shared,
                                   ppack_diam_um := shared_diam_um shared,
                                   ppack_time_since_spike := shared_time_since_spike shared,
                                   ppack_n_detectors := shared_n_detector shared\<rparr>,
          state_vars_h := replicate (length (mech_state_vars (mech this))) Unset,
          parameters_h := replicate (length (mech_parameters (mech this))) Unset,
          ion_states_h := replicate (length (mech_ions (mech this))) unassigned_ion_state,
          globals_h := replicate (length (mech_globals (mech this))) Uninit\<rparr>"

text \<open>
  \<^verbatim>\<open>instantiate\<close>, from the object \<open>this\<close> before the call to the object after it or
  the exception thrown. What lines 183-198 print to the error stream is left out.
\<close>

definition instantiate ::
  "backend \<Rightarrow> nat \<Rightarrow> shared_state \<Rightarrow> mechanism_overrides \<Rightarrow> mechanism_layout \<Rightarrow> mechanism
     \<Rightarrow> error + mechanism" where
  "instantiate be ident shared overrides pos_data this =
     (let m0 = set_internal be ident shared pos_data this in
      case set_ion_views shared overrides (mech_ions (mech m0)) 0 (ion_states_h m0) of
        Inl e \<Rightarrow> Inl e
      | Inr ish \<Rightarrow>
          let m1 = m0\<lparr>ion_states_h := ish\<rparr> in
          if width m1 = 0 then Inr m1
          else (case pack_values overrides pos_data m1 of
                  Inl e \<Rightarrow> Inl e
                | Inr (m2, value_end) \<Rightarrow>
               (case pack_indices shared overrides pos_data m2 of
                  Inl e \<Rightarrow> Inl e
                | Inr (m3, index_end) \<Rightarrow> Inr (upload m3))))"

subsection \<open>Accessors\<close>

text \<open>
  \<^verbatim>\<open>global_table\<close> and \<^verbatim>\<open>ion_table\<close> (lines 230-257): one entry per schema entry, in
  schema order, read from the host tables at the same index.
\<close>

definition global_table :: "mechanism \<Rightarrow> (string \<times> fval) list" where
  "global_table m =
     map (\<lambda>idx. (name (mech_globals (mech m) ! idx), globals_h m ! idx))
       [0 ..< length (mech_globals (mech m))]"

definition ion_table :: "mechanism \<Rightarrow> (string \<times> ion_state_view \<times> dptr) list" where
  "ion_table m =
     map (\<lambda>idx.
            (ion_name (mech_ions (mech m) ! idx),
             \<lparr>view_current_density = current_density (ion_states_h m ! idx),
              view_external_concentration = internal_concentration (ion_states_h m ! idx),
              view_internal_concentration = external_concentration (ion_states_h m ! idx),
              view_ionic_charge = ionic_charge (ion_states_h m ! idx)\<rparr>,
             index (ion_states_h m ! idx)))
       [0 ..< length (mech_ions (mech m))]"

subsection \<open>initialize\<close>

text \<open>
  Modelled from the spec: \<^verbatim>\<open>multiply_in_place\<close> is declared at line 259 and defined in
  a device source file that is not among the sources. The spec (section 4.4): "scale
  every state-variable field elementwise, per site, by that site's multiplicity". With
  the declared arguments \<open>s\<close>, \<open>p\<close> and \<open>n\<close>: \<^verbatim>\<open>s[i] *= p[i]\<close> for every \<open>i < n\<close>,
  on the value buffer \<open>d\<close> and the index buffer \<open>ix\<close>. A launch over no element touches
  no memory; one over \<open>n > 0\<close> elements needs both ranges inside their buffers.
\<close>

definition multiply_in_place ::
  "dptr \<Rightarrow> dptr \<Rightarrow> nat \<Rightarrow> fval list \<Rightarrow> int option list \<Rightarrow> error + fval list" where
  "multiply_in_place s p n d ix =
     (if n = 0 then Inr d
      else (case (s, p) of
              (Data_at so, Index_at po) \<Rightarrow>
                if so + n \<le> length d \<and> po + n \<le> length ix
                then Inr (take so d
                          @ map2 fmul (take n (drop so d)) (take n (drop po ix))
                          @ drop (so + n) d)
                else Inl Bad_access
            | _ \<Rightarrow> Inl Bad_access))"

text \<open>
  The loop of lines 265-267 at index \<open>idx\<close>, with \<open>k\<close> state variables still to
  scale; the state is the value buffer. Reading \<^verbatim>\<open>state_vars_h_\<close> past its end is a
  \<open>Bad_access\<close>.
\<close>

fun scale_state_vars ::
  "mechanism \<Rightarrow> nat \<Rightarrow> nat \<Rightarrow> fval list \<Rightarrow> error + fval list" where
  "scale_state_vars m 0 idx d = Inr d"
| "scale_state_vars m (Suc k) idx d =
     (if idx < length (state_vars_h m)
      then (case multiply_in_place (state_vars_h m ! idx) (ppack_multiplicity (ppack m))
                   (ppack_width (ppack m)) d (indices m) of
              Inl e \<Rightarrow> Inl e
            | Inr d' \<Rightarrow> scale_state_vars m k (Suc idx) d')
      else Inl Bad_access)"

text \<open>
  Modelled from the spec: \<^verbatim>\<open>set_time_ptr\<close> is defined in the class header, which is not
  among the sources. The spec (section 4.4): "refresh the stored pointer to the shared
  simulation clock (it may have been relocated since construction)". \<open>clock\<close> is where
  the clock's data lies at the time of the call.
\<close>

definition set_time_ptr :: "dptr \<Rightarrow> mechanism \<Rightarrow> mechanism" where
  "set_time_ptr clock m = m\<lparr>ppack := (ppack m)\<lparr>ppack_vec_t := clock\<rparr>\<rparr>"

text \<open>
  The generated kernel \<^verbatim>\<open>iface_.init_mechanism\<close> is a parameter. It runs on the device
  with the parameter pack and may write any cell of the value buffer: \<open>init_mechanism
  pp d k\<close> is the content of cell \<open>k\<close> after the kernel ran on the buffer \<open>d\<close>.
\<close>

definition run_kernel ::
  "(arb_mechanism_ppack \<Rightarrow> fval list \<Rightarrow> nat \<Rightarrow> fval) \<Rightarrow> mechanism \<Rightarrow> mechanism" where
  "run_kernel init_mechanism m =
     m\<lparr>data := map (init_mechanism (ppack m) (data m)) [0 ..< length (data m)]\<rparr>"

definition scaling_step :: "mechanism \<Rightarrow> error + mechanism" where
  "scaling_step m =
     (case scale_state_vars m (length (mech_state_vars (mech m))) 0 (data m) of
        Inl e \<Rightarrow> Inl e
      | Inr d \<Rightarrow> Inr (m\<lparr>data := d\<rparr>))"

definition initialize ::
  "(arb_mechanism_ppack \<Rightarrow> fval list \<Rightarrow> nat \<Rightarrow> fval) \<Rightarrow> dptr \<Rightarrow> mechanism \<Rightarrow> error + mechanism" where
  "initialize init_mechanism clock this =
     (let m = run_kernel init_mechanism (set_time_ptr clock this) in
      if \<not> mult_in_place m then Inr m else scaling_step m)"


subsection \<open>The gate of the scaling step, in the words of the spec\<close>

text \<open>
  The spec (section 4.4) scales "if any site has multiplicity greater than one". The
  source tests the member \<open>mult_in_place\<close>, set on line 59; this predicate is the
  spec's wording, to compare the two.
\<close>

definition any_multiplicity_above_one :: "mechanism_layout \<Rightarrow> bool" where
  "any_multiplicity_above_one pos_data = list_ex (\<lambda>x. 1 < x) (multiplicity pos_data)"

subsection \<open>Example inputs\<close>

text \<open>
  An instance before \<^verbatim>\<open>instantiate\<close> ran: its schema is set, no pointer is assigned
  and no buffer or table is allocated.
\<close>

definition fresh_ppack :: arb_mechanism_ppack where
  "fresh_ppack =
     \<lparr>ppack_width = 0, ppack_mechanism_id = 0, ppack_vec_ci = Unset, ppack_vec_di = Unset,
      ppack_vec_dt = Unset, ppack_vec_v = Unset, ppack_vec_i = Unset, ppack_vec_g = Unset,
      ppack_temperature_degC = Unset, ppack_diam_um = Unset, ppack_time_since_spike = Unset,
      ppack_n_detectors = 0, ppack_vec_t = Unset, ppack_weight = Unset,
      ppack_node_index = Unset, ppack_multiplicity = Unset, ppack_parameters = Unset,
      ppack_state_vars = Unset, ppack_ion_states = Unset, ppack_globals = Unset\<rparr>"

definition fresh_mechanism :: "arb_mechanism_type \<Rightarrow> mechanism" where
  "fresh_mechanism mt =
     \<lparr>mech = mt, mult_in_place = False, width = 0, width_padded = 0, num_ions = 0,
      vec_t_ptr = Unset, event_stream_ptr = Unset, ppack = fresh_ppack, state_vars_h = [],
      parameters_h = [], ion_states_h = [], globals_h = [], data = [], indices = [],
      parameters_d = [], state_vars_d = [], ion_states_d = []\<rparr>"

text \<open>A shared state with its arrays at the addresses 1 to 11 and the given ions.\<close>

definition example_shared :: "(string \<rightharpoonup> ion_state) \<Rightarrow> shared_state" where
  "example_shared ions =
     \<lparr>shared_cv_to_cell = Shared_at 1, shared_cv_to_intdom = Shared_at 2,
      shared_dt_cv = Shared_at 3, shared_voltage = Shared_at 4,
      shared_current_density = Shared_at 5, shared_conductivity = Shared_at 6,
      shared_temperature_degC = Shared_at 7, shared_diam_um = Shared_at 8,
      shared_time_since_spike = Shared_at 9, shared_n_detector = 0,
      shared_time = Shared_at 10, shared_deliverable_events = Shared_at 11,
      ion_data = ions\<rparr>"

text \<open>The calcium ion of the examples, present at the sites 1 to 7.\<close>

definition example_ca :: ion_state where
  "example_ca =
     \<lparr>iX = Shared_at 20, eX = Shared_at 21, Xi = Shared_at 22, Xo = Shared_at 23,
      charge = Shared_at 24, node_index = [1, 2, 3, 4, 5, 6, 7]\<rparr>"

text \<open>A schema with the two globals \<open>a = 1.0\<close> and \<open>b = 2.0\<close> and nothing else.\<close>

definition schema_ab :: arb_mechanism_type where
  "schema_ab =
     \<lparr>mech_parameters = [], mech_state_vars = [],
      mech_globals = [\<lparr>name = ''a'', default_value = Val 1\<rparr>,
                      \<lparr>name = ''b'', default_value = Val 2\<rparr>],
      mech_ions = []\<rparr>"

text \<open>
  A schema with one parameter, one state variable, one global and the ion \<open>x\<close>.
\<close>

definition schema_psx :: arb_mechanism_type where
  "schema_psx =
     \<lparr>mech_parameters = [\<lparr>name = ''p'', default_value = Val 3\<rparr>],
      mech_state_vars = [\<lparr>name = ''s'', default_value = Val 4\<rparr>],
      mech_globals = [\<lparr>name = ''g'', default_value = Val 1\<rparr>],
      mech_ions = [\<lparr>ion_name = ''x''\<rparr>]\<rparr>"

text \<open>A schema with the parameter \<open>p\<close> and nothing else.\<close>

definition schema_p :: arb_mechanism_type where
  "schema_p =
     \<lparr>mech_parameters = [\<lparr>name = ''p'', default_value = Val 3\<rparr>],
      mech_state_vars = [], mech_globals = [], mech_ions = []\<rparr>"

lemmas example_defs =
  fresh_ppack_def fresh_mechanism_def example_shared_def example_ca_def schema_ab_def
  schema_psx_def schema_p_def

lemmas instantiate_defs =
  instantiate_def set_internal_def pack_values_def pack_indices_def upload_def
  append_chunk_def append_const_def device_write_def copy_source_def value_count_def
  index_count_def round_up_def ion_binding_of_def unassigned_ion_state_def
  braced_ion_state_def

section \<open>The index join\<close>

lemma position_in_Some:
  "a \<in> set B \<Longrightarrow> \<exists>k. position_in a B = Some k \<and> k < length B \<and> B ! k = a"
  by (induction B) auto

lemma index_into_Some:
  "set A \<subseteq> set B \<Longrightarrow>
     \<exists>C. index_into A B = Some C \<and> length C = length A
        \<and> (\<forall>k < length A. C ! k < length B \<and> B ! (C ! k) = A ! k)"
proof (induction A)
  case Nil
  then show ?case by simp
next
  case (Cons a A)
  then obtain C where C: "index_into A B = Some C" "length C = length A"
    "\<forall>k < length A. C ! k < length B \<and> B ! (C ! k) = A ! k" by auto
  from Cons.prems obtain p where p: "position_in a B = Some p" "p < length B" "B ! p = a"
    using position_in_Some[of a B] by auto
  have "index_into (a # A) B = Some (p # C)" using C p by simp
  moreover have "\<forall>k < length (a # A). (p # C) ! k < length B \<and> B ! ((p # C) ! k) = (a # A) ! k"
    using C p by (auto simp: nth_Cons split: nat.splits)
  ultimately show ?case using C(2) by auto
qed

section \<open>Writes into a buffer\<close>

lemma length_copy_source [simp]: "length (copy_source n pad xs) = n"
  by (simp add: copy_source_def)

lemma device_write_Inl: "device_write buf ptr xs = Inl e \<Longrightarrow> e = Buffer_overrun"
  by (simp add: device_write_def split: if_splits)

lemma device_write_ok:
  "ptr + length xs \<le> length buf \<Longrightarrow> \<exists>b. device_write buf ptr xs = Inr b"
  by (simp add: device_write_def)

lemma device_write_Inr:
  assumes "device_write buf ptr xs = Inr b"
  shows "ptr + length xs \<le> length buf" and "length b = length buf"
    and "\<And>k. k < length buf \<Longrightarrow> k < ptr \<or> ptr + length xs \<le> k \<Longrightarrow> b ! k = buf ! k"
    and "take (length xs) (drop ptr b) = xs"
proof -
  from assms have le: "ptr + length xs \<le> length buf"
    and b: "b = take ptr buf @ xs @ drop (ptr + length xs) buf"
    by (auto simp: device_write_def split: if_splits)
  show "ptr + length xs \<le> length buf" by (rule le)
  show "length b = length buf" using le b by simp
  show "take (length xs) (drop ptr b) = xs" using le b by simp
  fix k assume "k < length buf" and "k < ptr \<or> ptr + length xs \<le> k"
  then show "b ! k = buf ! k"
    using le b by (auto simp: nth_append min_def)
qed

lemma append_chunk_Inl: "append_chunk n pad inp buf ptr = Inl e \<Longrightarrow> e = Buffer_overrun"
  by (auto simp: append_chunk_def split: sum.splits dest: device_write_Inl)

lemma append_const_Inl: "append_const n v buf ptr = Inl e \<Longrightarrow> e = Buffer_overrun"
  by (auto simp: append_const_def split: sum.splits dest: device_write_Inl)

lemma append_chunk_ok:
  "ptr + n \<le> length buf \<Longrightarrow> \<exists>b. append_chunk n pad inp buf ptr = Inr (b, ptr, ptr + n)"
  using device_write_ok[of ptr "copy_source n pad inp" buf]
  by (auto simp: append_chunk_def)

lemma append_const_ok:
  "ptr + n \<le> length buf \<Longrightarrow> \<exists>b. append_const n v buf ptr = Inr (b, ptr, ptr + n)"
  using device_write_ok[of ptr "replicate n v" buf]
  by (auto simp: append_const_def)

lemma append_chunk_Inr:
  assumes "append_chunk n pad inp buf ptr = Inr (b, out, ptr')"
  shows "out = ptr" and "ptr' = ptr + n" and "ptr + n \<le> length buf" and "length b = length buf"
    and "\<And>k. k < length buf \<Longrightarrow> k < ptr \<or> ptr + n \<le> k \<Longrightarrow> b ! k = buf ! k"
    and "take n (drop ptr b) = copy_source n pad inp"
proof -
  from assms have w: "device_write buf ptr (copy_source n pad inp) = Inr b"
    and o: "out = ptr" "ptr' = ptr + n"
    by (auto simp: append_chunk_def split: sum.splits)
  show "out = ptr" "ptr' = ptr + n" by (rule o)+
  show "ptr + n \<le> length buf" using device_write_Inr(1)[OF w] by simp
  show "length b = length buf" using device_write_Inr(2)[OF w] .
  show "take n (drop ptr b) = copy_source n pad inp" using device_write_Inr(4)[OF w] by simp
  fix k assume "k < length buf" and "k < ptr \<or> ptr + n \<le> k"
  then show "b ! k = buf ! k" using device_write_Inr(3)[OF w, of k] by simp
qed

lemma append_const_Inr:
  assumes "append_const n v buf ptr = Inr (b, out, ptr')"
  shows "out = ptr" and "ptr' = ptr + n" and "ptr + n \<le> length buf" and "length b = length buf"
    and "\<And>k. k < length buf \<Longrightarrow> k < ptr \<or> ptr + n \<le> k \<Longrightarrow> b ! k = buf ! k"
proof -
  from assms have w: "device_write buf ptr (replicate n v) = Inr b"
    and o: "out = ptr" "ptr' = ptr + n"
    by (auto simp: append_const_def split: sum.splits)
  show "out = ptr" "ptr' = ptr + n" by (rule o)+
  show "ptr + n \<le> length buf" using device_write_Inr(1)[OF w] by simp
  show "length b = length buf" using device_write_Inr(2)[OF w] .
  fix k assume "k < length buf" and "k < ptr \<or> ptr + n \<le> k"
  then show "b ! k = buf ! k" using device_write_Inr(3)[OF w, of k] by simp
qed

lemma append_fields_Inl: "append_fields n fs idx s = Inl e \<Longrightarrow> e = Buffer_overrun"
proof (induction fs arbitrary: idx s)
  case Nil
  then show ?case by simp
next
  case (Cons f fs)
  obtain buf ptr tab where s: "s = (buf, ptr, tab)" by (cases s)
  from Cons.prems show ?case unfolding s
    by (auto split: sum.splits dest: append_const_Inl Cons.IH)
qed

lemma append_fields_ok:
  "ptr + n * length fs \<le> length buf \<Longrightarrow>
     \<exists>b t. append_fields n fs idx (buf, ptr, tab) = Inr (b, ptr + n * length fs, t)"
proof (induction fs arbitrary: idx buf ptr tab)
  case Nil
  then show ?case by simp
next
  case (Cons f fs)
  from Cons.prems have "ptr + n \<le> length buf" by simp
  from append_const_ok[OF this] obtain b1
    where b1: "append_const n (default_value f) buf ptr = Inr (b1, ptr, ptr + n)" by blast
  have len: "length b1 = length buf" using append_const_Inr(4)[OF b1] .
  from Cons.prems len have "(ptr + n) + n * length fs \<le> length b1" by simp
  from Cons.IH[OF this] obtain b t
    where "append_fields n fs (Suc idx) (b1, ptr + n, tab[idx := Data_at ptr])
             = Inr (b, ptr + n + n * length fs, t)" by blast
  then show ?case using b1 by (simp add: add.assoc)
qed

lemma append_fields_Inr:
  "append_fields n fs idx (buf, ptr, tab) = Inr (b, ptr', t) \<Longrightarrow>
     ptr' = ptr + n * length fs \<and> length b = length buf \<and> length t = length tab
     \<and> (fs \<noteq> [] \<longrightarrow> ptr' \<le> length buf)
     \<and> (\<forall>j < length tab. t ! j = (if idx \<le> j \<and> j < idx + length fs
                                       then Data_at (ptr + (j - idx) * n) else tab ! j))
     \<and> (\<forall>k < length buf. k < ptr \<or> ptr' \<le> k \<longrightarrow> b ! k = buf ! k)"
proof (induction fs arbitrary: idx buf ptr tab)
  case Nil
  then show ?case by auto
next
  case (Cons f fs)
  from Cons.prems obtain b1 out p1
    where c: "append_const n (default_value f) buf ptr = Inr (b1, out, p1)"
      and r: "append_fields n fs (Suc idx) (b1, p1, tab[idx := Data_at out]) = Inr (b, ptr', t)"
    by (auto split: sum.splits)
  note c' = append_const_Inr[OF c]
  note ih = Cons.IH[OF r]
  have p: "ptr' = ptr + n * length (f # fs)" using ih c'(1,2) by simp
  have lb: "length b = length buf" using ih c'(4) by simp
  have lt: "length t = length tab" using ih by simp
  have bound: "ptr' \<le> length buf"
  proof (cases fs)
    case Nil
    then show ?thesis using ih c'(2,3) by simp
  next
    case (Cons a list)
    then show ?thesis using ih c'(4) by simp
  qed
  have tabs: "\<forall>j < length tab. t ! j = (if idx \<le> j \<and> j < idx + length (f # fs)
                                       then Data_at (ptr + (j - idx) * n) else tab ! j)"
  proof (intro allI impI)
    fix j assume j: "j < length tab"
    then have tj: "t ! j = (if Suc idx \<le> j \<and> j < Suc idx + length fs
                          then Data_at (p1 + (j - Suc idx) * n) else tab[idx := Data_at out] ! j)"
      using ih by simp
    show "t ! j = (if idx \<le> j \<and> j < idx + length (f # fs)
                                       then Data_at (ptr + (j - idx) * n) else tab ! j)"
    proof (cases "Suc idx \<le> j")
      case True
      then have "j - idx = Suc (j - Suc idx)" by simp
      then have "(j - idx) * n = n + (j - Suc idx) * n" by simp
      with True show ?thesis using tj j c'(1,2) by auto
    next
      case False
      then show ?thesis using tj j c'(1,2) by (cases "j = idx") auto
    qed
  qed
  have cells: "\<forall>k < length buf. k < ptr \<or> ptr' \<le> k \<longrightarrow> b ! k = buf ! k"
  proof (intro allI impI)
    fix k assume kl: "k < length buf" and k: "k < ptr \<or> ptr' \<le> k"
    then have "k < p1 \<or> ptr' \<le> k" using c'(2) by auto
    moreover from ih have "\<forall>k < length b1. k < p1 \<or> ptr' \<le> k \<longrightarrow> b ! k = b1 ! k"
      by blast
    ultimately have "b ! k = b1 ! k" using kl c'(4) by auto
    moreover have "k < ptr \<or> ptr + n \<le> k" using k p by auto
    then have "b1 ! k = buf ! k" using c'(5) kl by simp
    ultimately show "b ! k = buf ! k" by simp
  qed
  show ?case using p lb lt bound tabs cells by simp
qed

section \<open>Ion binding\<close>

lemma set_ion_views_Inl:
  "set_ion_views shared overrides ions idx ish = Inl e \<Longrightarrow> e = Missing_ion"
  by (induction ions arbitrary: idx ish) (auto split: option.splits)

lemma set_ion_views_Missing_iff:
  "set_ion_views shared overrides ions idx ish = Inl Missing_ion \<longleftrightarrow>
     (\<exists>i \<in> set ions. ion_data shared (ion_binding_of overrides (ion_name i)) = None)"
  by (induction ions arbitrary: idx ish) (auto split: option.splits)

lemma set_ion_views_Inr:
  "set_ion_views shared overrides ions idx ish = Inr r \<Longrightarrow>
     length r = length ish
     \<and> (\<forall>j < length ish. r ! j =
           (if idx \<le> j \<and> j < idx + length ions
            then (case ion_data shared (ion_binding_of overrides (ion_name (ions ! (j - idx)))) of
                    Some oion \<Rightarrow> braced_ion_state oion
                  | None \<Rightarrow> ish ! j)
            else ish ! j))"
proof (induction ions arbitrary: idx ish)
  case Nil
  then show ?case by auto
next
  case (Cons i ions)
  from Cons.prems obtain oion
    where o: "ion_data shared (ion_binding_of overrides (ion_name i)) = Some oion"
      and r: "set_ion_views shared overrides ions (Suc idx) (ish[idx := braced_ion_state oion])
                = Inr r"
    by (auto split: option.splits)
  note ih = Cons.IH[OF r]
  have len: "length r = length ish" using ih by simp
  have "\<forall>j < length ish. r ! j =
           (if idx \<le> j \<and> j < idx + length (i # ions)
            then (case ion_data shared
                         (ion_binding_of overrides (ion_name ((i # ions) ! (j - idx)))) of
                    Some oion \<Rightarrow> braced_ion_state oion
                  | None \<Rightarrow> ish ! j)
            else ish ! j)"
  proof (intro allI impI)
    fix j assume j: "j < length ish"
    from ih j have rj: "r ! j =
           (if Suc idx \<le> j \<and> j < Suc idx + length ions
            then (case ion_data shared
                         (ion_binding_of overrides (ion_name (ions ! (j - Suc idx)))) of
                    Some oion \<Rightarrow> braced_ion_state oion
                  | None \<Rightarrow> ish[idx := braced_ion_state oion] ! j)
            else ish[idx := braced_ion_state oion] ! j)" by simp
    show "r ! j =
           (if idx \<le> j \<and> j < idx + length (i # ions)
            then (case ion_data shared
                         (ion_binding_of overrides (ion_name ((i # ions) ! (j - idx)))) of
                    Some oion \<Rightarrow> braced_ion_state oion
                  | None \<Rightarrow> ish ! j)
            else ish ! j)"
    proof (cases "Suc idx \<le> j")
      case True
      then have "j - idx = Suc (j - Suc idx)" by simp
      with True show ?thesis using rj j by (auto split: option.splits)
    next
      case False
      then show ?thesis using rj j o by (cases "j = idx") auto
    qed
  qed
  with len show ?case by simp
qed

section \<open>Resolving the globals\<close>

lemma length_assign_defaults [simp]: "length (assign_defaults gs idx gh) = length gh"
  by (induction gs arbitrary: idx gh) auto

lemma override_scan_Inl:
  "override_scan gs idx k v found gh = Inl e \<Longrightarrow> e = No_such_global k"
  by (induction gs arbitrary: idx gh) (auto split: if_splits)

lemma override_scan_Inr:
  "override_scan gs idx k v found gh = Inr gh' \<Longrightarrow> length gh' = length gh"
  by (induction gs arbitrary: idx gh) (auto split: if_splits)

lemma apply_overrides_Inl: "apply_overrides gs ovs gh = Inl e \<Longrightarrow> \<exists>k. e = No_such_global k"
  by (induction gs ovs gh rule: apply_overrides.induct)
     (auto split: sum.splits dest: override_scan_Inl)

lemma apply_overrides_Inr: "apply_overrides gs ovs gh = Inr gh' \<Longrightarrow> length gh' = length gh"
  by (induction gs ovs gh rule: apply_overrides.induct)
     (auto split: sum.splits dest: override_scan_Inr)

lemma apply_overrides_no_globals: "apply_overrides [] ovs gh = Inr gh"
  by (induction ovs) auto

section \<open>The layout of the value buffer\<close>

lemma pack_values_Inl:
  "pack_values overrides pos_data m = Inl e \<Longrightarrow> e = Buffer_overrun \<or> (\<exists>k. e = No_such_global k)"
  unfolding pack_values_def
  by (auto split: sum.splits prod.splits
           dest: append_chunk_Inl append_fields_Inl apply_overrides_Inl device_write_Inl)

lemma pack_values_Inr:
  assumes pv: "pack_values overrides pos_data m = Inr (m', e)"
    and lp: "length (parameters_h m) = length (mech_parameters (mech m))"
    and ls: "length (state_vars_h m) = length (mech_state_vars (mech m))"
  shows "e = (1 + length (mech_parameters (mech m)) + length (mech_state_vars (mech m))) * width m
               + length (mech_globals (mech m))"
    and "e \<le> length (data m')"
    and "length (data m') = value_count m"
    and "parameters_h m' = map (\<lambda>j. Data_at ((1 + j) * width m)) [0 ..< length (mech_parameters (mech m))]"
    and "state_vars_h m' =
           map (\<lambda>j. Data_at ((1 + length (mech_parameters (mech m)) + j) * width m))
             [0 ..< length (mech_state_vars (mech m))]"
    and "ppack m' = (ppack m)\<lparr>ppack_weight := Data_at 0,
            ppack_globals := Data_at ((1 + length (mech_parameters (mech m))
                                         + length (mech_state_vars (mech m))) * width m)\<rparr>"
    and "m' = m\<lparr>data := data m', parameters_h := parameters_h m',
                state_vars_h := state_vars_h m', globals_h := globals_h m', ppack := ppack m'\<rparr>"
    and "length (globals_h m') = length (globals_h m)"
proof -
  let ?w = "width m"
  let ?np = "length (mech_parameters (mech m))"
  let ?ns = "length (mech_state_vars (mech m))"
  let ?ng = "length (mech_globals (mech m))"
  from pv obtain d1 wo p1 d2 p2 ph d3 p3 sh gh d4 where
    a1: "append_chunk ?w Uninit (weight pos_data) (replicate (value_count m) NaN) 0 = Inr (d1, wo, p1)"
    and a2: "append_fields ?w (mech_parameters (mech m)) 0 (d1, p1, parameters_h m) = Inr (d2, p2, ph)"
    and a3: "append_fields ?w (mech_state_vars (mech m)) 0 (d2, p2, state_vars_h m) = Inr (d3, p3, sh)"
    and a4: "apply_overrides (mech_globals (mech m)) (overrides_globals overrides)
               (assign_defaults (mech_globals (mech m)) 0 (globals_h m)) = Inr gh"
    and a5: "device_write d3 p3 (copy_source ?ng Uninit gh) = Inr d4"
    and m': "m' = m\<lparr>data := d4, parameters_h := ph, state_vars_h := sh, globals_h := gh,
                 ppack := (ppack m)\<lparr>ppack_weight := Data_at wo, ppack_globals := Data_at p3\<rparr>\<rparr>"
    and e: "e = p3 + ?ng"
    unfolding pack_values_def by (auto split: sum.splits prod.splits)
  note c1 = append_chunk_Inr[OF a1]
  note f2 = append_fields_Inr[OF a2]
  note f3 = append_fields_Inr[OF a3]
  note w5 = device_write_Inr[OF a5]
  have wo: "wo = 0" and p1: "p1 = ?w" using c1(1,2) by simp_all
  have p2: "p2 = ?w + ?w * ?np" using f2 p1 by simp
  have p3: "p3 = (1 + ?np + ?ns) * ?w" using f3 p2 by (simp add: algebra_simps)
  have l1: "length d1 = value_count m" using c1(4) by simp
  have l2: "length d2 = value_count m" using f2 l1 by simp
  have l3: "length d3 = value_count m" using f3 l2 by simp
  have l4: "length d4 = value_count m" using w5(2) l3 by simp
  show "e = (1 + ?np + ?ns) * ?w + ?ng" using e p3 by simp
  show "e \<le> length (data m')" using w5(1) e m' l3 l4 by simp
  show "length (data m') = value_count m" using m' l4 by simp
  have lph: "length ph = ?np" using f2 lp by simp
  have "\<forall>j < ?np. ph ! j = Data_at ((1 + j) * ?w)"
    using f2 lp p1 by (simp add: algebra_simps)
  then show "parameters_h m' = map (\<lambda>j. Data_at ((1 + j) * ?w)) [0 ..< ?np]"
    using lph m' by (auto intro: nth_equalityI)
  have lsh: "length sh = ?ns" using f3 ls by simp
  have "\<forall>j < ?ns. sh ! j = Data_at ((1 + ?np + j) * ?w)"
    using f3 ls p2 by (simp add: algebra_simps)
  then show "state_vars_h m' = map (\<lambda>j. Data_at ((1 + ?np + j) * ?w)) [0 ..< ?ns]"
    using lsh m' by (auto intro: nth_equalityI)
  show "ppack m' = (ppack m)\<lparr>ppack_weight := Data_at 0,
            ppack_globals := Data_at ((1 + ?np + ?ns) * ?w)\<rparr>"
    using m' wo p3 by simp
  show "m' = m\<lparr>data := data m', parameters_h := parameters_h m',
                state_vars_h := state_vars_h m', globals_h := globals_h m', ppack := ppack m'\<rparr>"
    using m' by simp
  show "length (globals_h m') = length (globals_h m)"
    using apply_overrides_Inr[OF a4] m' by simp
qed

lemma pack_values_no_overrun:
  assumes "width m \<le> width_padded m"
  shows "pack_values overrides pos_data m \<noteq> Inl Buffer_overrun"
proof -
  let ?w = "width m"
  let ?np = "length (mech_parameters (mech m))"
  let ?ns = "length (mech_state_vars (mech m))"
  let ?ng = "length (mech_globals (mech m))"
  let ?c = "value_count m"
  have "(?ns + ?np + 1) * ?w \<le> (?ns + ?np + 1) * width_padded m"
    using assms by (rule mult_le_mono2)
  then have room: "?w + ?w * ?np + ?w * ?ns + ?ng \<le> ?c"
    by (simp add: value_count_def algebra_simps)
  have "0 + ?w \<le> length (replicate ?c NaN)" using room by simp
  from append_chunk_ok[OF this] obtain d1
    where a1: "append_chunk ?w Uninit (weight pos_data) (replicate ?c NaN) 0 = Inr (d1, 0, 0 + ?w)"
    by blast
  have l1: "length d1 = ?c" using append_chunk_Inr(4)[OF a1] by simp
  have "(0 + ?w) + ?w * ?np \<le> length d1" using room l1 by simp
  from append_fields_ok[OF this] obtain d2 ph
    where a2: "append_fields ?w (mech_parameters (mech m)) 0 (d1, 0 + ?w, parameters_h m)
                 = Inr (d2, 0 + ?w + ?w * ?np, ph)" by blast
  have l2: "length d2 = ?c" using append_fields_Inr[OF a2] l1 by simp
  have "(0 + ?w + ?w * ?np) + ?w * ?ns \<le> length d2" using room l2 by simp
  from append_fields_ok[OF this] obtain d3 sh
    where a3: "append_fields ?w (mech_state_vars (mech m)) 0 (d2, 0 + ?w + ?w * ?np, state_vars_h m)
                 = Inr (d3, 0 + ?w + ?w * ?np + ?w * ?ns, sh)" by blast
  have l3: "length d3 = ?c" using append_fields_Inr[OF a3] l2 by simp
  show ?thesis
  proof (cases "apply_overrides (mech_globals (mech m)) (overrides_globals overrides)
               (assign_defaults (mech_globals (mech m)) 0 (globals_h m))")
    case (Inl err)
    then obtain k where "err = No_such_global k" using apply_overrides_Inl by blast
    then show ?thesis using a1 a2 a3 Inl by (simp add: pack_values_def)
  next
    case (Inr gh)
    have "(0 + ?w + ?w * ?np + ?w * ?ns) + length (copy_source ?ng Uninit gh) \<le> length d3"
      using room l3 by simp
    from device_write_ok[OF this] obtain d4
      where "device_write d3 (0 + ?w + ?w * ?np + ?w * ?ns) (copy_source ?ng Uninit gh) = Inr d4"
      by blast
    then show ?thesis using a1 a2 a3 Inr by (simp add: pack_values_def)
  qed
qed

section \<open>The layout of the index buffer\<close>

lemma append_ion_indices_Inl:
  "append_ion_indices shared overrides pos_data n ions idx s = Inl e \<Longrightarrow>
     e = Missing_ion \<or> e = Join_precondition \<or> e = Buffer_overrun"
proof (induction ions arbitrary: idx s)
  case Nil
  then show ?case by simp
next
  case (Cons i ions)
  obtain buf ptr ish where s: "s = (buf, ptr, ish)" by (cases s)
  from Cons.prems show ?case unfolding s
    by (auto split: option.splits sum.splits dest: append_chunk_Inl Cons.IH)
qed

lemma append_ion_indices_no_missing:
  "\<forall>i \<in> set ions. ion_data shared (ion_binding_of overrides (ion_name i)) \<noteq> None \<Longrightarrow>
     append_ion_indices shared overrides pos_data n ions idx s \<noteq> Inl Missing_ion"
proof (induction ions arbitrary: idx s)
  case Nil
  then show ?case by simp
next
  case (Cons i ions)
  obtain buf ptr ish where s: "s = (buf, ptr, ish)" by (cases s)
  from Cons.prems have rest:
    "\<forall>i \<in> set ions. ion_data shared (ion_binding_of overrides (ion_name i)) \<noteq> None" by simp
  from Cons.prems show ?case unfolding s
    by (auto split: option.splits sum.splits dest: append_chunk_Inl simp: Cons.IH[OF rest])
qed

lemma append_ion_indices_no_overrun:
  "ptr + n * length ions \<le> length buf \<Longrightarrow>
     append_ion_indices shared overrides pos_data n ions idx (buf, ptr, ish) \<noteq> Inl Buffer_overrun"
proof (induction ions arbitrary: idx buf ptr ish)
  case Nil
  then show ?case by simp
next
  case (Cons i ions)
  show ?case
  proof (cases "ion_data shared (ion_binding_of overrides (ion_name i))")
    case None
    then show ?thesis by simp
  next
    case (Some oion)
    show ?thesis
    proof (cases "index_into (cv pos_data) (node_index oion)")
      case None
      then show ?thesis using Some by simp
    next
      case (Some joined)
      from Cons.prems have "ptr + n \<le> length buf" by simp
      from append_chunk_ok[OF this] obtain b1
        where a: "append_chunk n None (map (\<lambda>k. Some (int k)) joined) buf ptr
                    = Inr (b1, ptr, ptr + n)" by blast
      have "length b1 = length buf" using append_chunk_Inr(4)[OF a] .
      with Cons.prems have "(ptr + n) + n * length ions \<le> length b1" by simp
      from Cons.IH[OF this] show ?thesis
        using \<open>ion_data shared (ion_binding_of overrides (ion_name i)) = Some oion\<close> Some a
        by simp
    qed
  qed
qed

lemma append_ion_indices_Inr:
  "append_ion_indices shared overrides pos_data n ions idx (buf, ptr, ish) = Inr (b, ptr', r) \<Longrightarrow>
     ptr' = ptr + n * length ions \<and> length b = length buf \<and> length r = length ish
     \<and> (ions \<noteq> [] \<longrightarrow> ptr' \<le> length buf)
     \<and> (\<forall>j < length ish. r ! j = (if idx \<le> j \<and> j < idx + length ions
                                       then (ish ! j)\<lparr>index := Index_at (ptr + (j - idx) * n)\<rparr>
                                       else ish ! j))"
proof (induction ions arbitrary: idx buf ptr ish)
  case Nil
  then show ?case by auto
next
  case (Cons i ions)
  from Cons.prems obtain oion joined b1 out p1
    where c: "append_chunk n None (map (\<lambda>k. Some (int k)) joined) buf ptr = Inr (b1, out, p1)"
      and r: "append_ion_indices shared overrides pos_data n ions (Suc idx)
                (b1, p1, ish[idx := (ish ! idx)\<lparr>index := Index_at out\<rparr>]) = Inr (b, ptr', r)"
    by (auto split: option.splits sum.splits)
  note c' = append_chunk_Inr[OF c]
  note ih = Cons.IH[OF r]
  have p: "ptr' = ptr + n * length (i # ions)" using ih c'(1,2) by simp
  have lb: "length b = length buf" using ih c'(4) by simp
  have lr: "length r = length ish" using ih by simp
  have bound: "ptr' \<le> length buf"
  proof (cases ions)
    case Nil
    then show ?thesis using ih c'(2,3) by simp
  next
    case (Cons a list)
    then show ?thesis using ih c'(4) by simp
  qed
  have tabs: "\<forall>j < length ish. r ! j = (if idx \<le> j \<and> j < idx + length (i # ions)
                                       then (ish ! j)\<lparr>index := Index_at (ptr + (j - idx) * n)\<rparr>
                                       else ish ! j)"
  proof (intro allI impI)
    fix j assume j: "j < length ish"
    then have rj: "r ! j = (if Suc idx \<le> j \<and> j < Suc idx + length ions
                          then (ish[idx := (ish ! idx)\<lparr>index := Index_at out\<rparr>] ! j)
                                 \<lparr>index := Index_at (p1 + (j - Suc idx) * n)\<rparr>
                          else ish[idx := (ish ! idx)\<lparr>index := Index_at out\<rparr>] ! j)"
      using ih by simp
    show "r ! j = (if idx \<le> j \<and> j < idx + length (i # ions)
                                       then (ish ! j)\<lparr>index := Index_at (ptr + (j - idx) * n)\<rparr>
                                       else ish ! j)"
    proof (cases "Suc idx \<le> j")
      case True
      then have "j - idx = Suc (j - Suc idx)" by simp
      then have "(j - idx) * n = n + (j - Suc idx) * n" by simp
      with True show ?thesis using rj j c'(1,2) by auto
    next
      case False
      then show ?thesis using rj j c'(1,2) by (cases "j = idx") auto
    qed
  qed
  show ?case using p lb lr bound tabs by simp
qed

lemma pack_indices_Inl:
  "pack_indices shared overrides pos_data m = Inl e \<Longrightarrow>
     e = Missing_ion \<or> e = Join_precondition \<or> e = Buffer_overrun"
  unfolding pack_indices_def
  by (auto split: sum.splits prod.splits if_splits
           dest: append_chunk_Inl append_ion_indices_Inl)

lemma pack_indices_no_missing:
  assumes "\<forall>i \<in> set (mech_ions (mech m)).
             ion_data shared (ion_binding_of overrides (ion_name i)) \<noteq> None"
  shows "pack_indices shared overrides pos_data m \<noteq> Inl Missing_ion"
  using append_ion_indices_no_missing[OF assms]
  unfolding pack_indices_def
  by (auto split: sum.splits prod.splits if_splits dest: append_chunk_Inl)

lemma pack_indices_no_overrun:
  assumes "width m \<le> width_padded m"
  shows "pack_indices shared overrides pos_data m \<noteq> Inl Buffer_overrun"
proof -
  let ?w = "width m"
  let ?ni = "length (mech_ions (mech m))"
  let ?k = "if mult_in_place m then 1 else (0::nat)"
  let ?c = "index_count m"
  have "(?k + ?ni + 1) * ?w \<le> (?k + ?ni + 1) * width_padded m"
    using assms by (rule mult_le_mono2)
  then have room: "?w + ?w * ?ni + ?k * ?w \<le> ?c"
    by (simp add: index_count_def algebra_simps)
  have "0 + ?w \<le> length (replicate ?c (None :: int option))" using room by simp
  from append_chunk_ok[OF this] obtain i1
    where a1: "append_chunk ?w None (map Some (cv pos_data)) (replicate ?c None) 0
                 = Inr (i1, 0, 0 + ?w)" by blast
  have l1: "length i1 = ?c" using append_chunk_Inr(4)[OF a1] by simp
  have r2: "(0 + ?w) + ?w * ?ni \<le> length i1" using room l1 by simp
  show ?thesis
  proof (cases "append_ion_indices shared overrides pos_data ?w (mech_ions (mech m)) 0
                  (i1, 0 + ?w, ion_states_h m)")
    case (Inl err)
    then have "err \<noteq> Buffer_overrun" using append_ion_indices_no_overrun[OF r2] by auto
    then show ?thesis using a1 Inl by (simp add: pack_indices_def)
  next
    case (Inr res)
    obtain i2 p2 ish where res: "res = (i2, p2, ish)" by (cases res)
    note f = append_ion_indices_Inr[OF Inr[unfolded res]]
    have p2: "p2 = ?w + ?w * ?ni" and l2: "length i2 = ?c" using f l1 by simp_all
    show ?thesis
    proof (cases "mult_in_place m")
      case True
      then have "p2 + ?w \<le> length i2" using room p2 l2 by simp
      from append_chunk_ok[OF this] obtain i3
        where "append_chunk ?w None (map Some (multiplicity pos_data)) i2 p2
                 = Inr (i3, p2, p2 + ?w)" by blast
      then show ?thesis using a1 Inr res True by (simp add: pack_indices_def)
    next
      case False
      then show ?thesis using a1 Inr res by (simp add: pack_indices_def)
    qed
  qed
qed

lemma pack_indices_Inr:
  assumes pi: "pack_indices shared overrides pos_data m = Inr (m', e)"
  shows "e = ((if mult_in_place m then 1 else 0) + length (mech_ions (mech m)) + 1) * width m
    \<and> e \<le> length (indices m')
    \<and> length (indices m') = index_count m
    \<and> ppack m' = (ppack m)\<lparr>ppack_node_index := Index_at 0,
                              ppack_multiplicity := ppack_multiplicity (ppack m')\<rparr>
    \<and> (mult_in_place m \<longrightarrow>
          ppack_multiplicity (ppack m') = Index_at ((1 + length (mech_ions (mech m))) * width m))
    \<and> (mult_in_place m \<longrightarrow>
          take (width m) (drop ((1 + length (mech_ions (mech m))) * width m) (indices m'))
            = copy_source (width m) None (map Some (multiplicity pos_data)))
    \<and> (\<not> mult_in_place m \<longrightarrow> ppack_multiplicity (ppack m') = ppack_multiplicity (ppack m))
    \<and> m' = m\<lparr>indices := indices m', ion_states_h := ion_states_h m', ppack := ppack m'\<rparr>
    \<and> length (ion_states_h m') = length (ion_states_h m)
    \<and> (\<forall>j. j < length (ion_states_h m) \<longrightarrow> j < length (mech_ions (mech m)) \<longrightarrow>
          ion_states_h m' ! j = (ion_states_h m ! j)\<lparr>index := Index_at ((1 + j) * width m)\<rparr>)"
proof -
  let ?w = "width m"
  let ?ni = "length (mech_ions (mech m))"
  let ?c = "index_count m"
  from pi obtain i1 no p1 i2 p2 ish where
    a1: "append_chunk ?w None (map Some (cv pos_data)) (replicate ?c None) 0 = Inr (i1, no, p1)"
    and a2: "append_ion_indices shared overrides pos_data ?w (mech_ions (mech m)) 0
               (i1, p1, ion_states_h m) = Inr (i2, p2, ish)"
    unfolding pack_indices_def by (auto split: sum.splits prod.splits)
  note c1 = append_chunk_Inr[OF a1]
  note f2 = append_ion_indices_Inr[OF a2]
  have no: "no = 0" and p1: "p1 = ?w" using c1(1,2) by simp_all
  have l1: "length i1 = ?c" using c1(4) by simp
  have p2: "p2 = (1 + ?ni) * ?w" using f2 p1 by (simp add: algebra_simps)
  have l2: "length i2 = ?c" using f2 l1 by simp
  have b2: "p2 \<le> ?c"
  proof (cases "mech_ions (mech m)")
    case Nil
    then show ?thesis using p2 c1(3) by simp
  next
    case (Cons a list)
    then show ?thesis using f2 l1 by simp
  qed
  have lish: "length ish = length (ion_states_h m)" using f2 by simp
  have ishj: "\<And>j. j < length (ion_states_h m) \<Longrightarrow> j < ?ni \<Longrightarrow>
                ish ! j = (ion_states_h m ! j)\<lparr>index := Index_at ((1 + j) * ?w)\<rparr>"
    using f2 p1 by (simp add: algebra_simps)
  show ?thesis
  proof (cases "mult_in_place m")
    case True
    from pi a1 a2 True obtain i3 mo p3 where
      a3: "append_chunk ?w None (map Some (multiplicity pos_data)) i2 p2 = Inr (i3, mo, p3)"
      and m': "m' = m\<lparr>indices := i3, ion_states_h := ish,
                 ppack := (ppack m)\<lparr>ppack_node_index := Index_at no,
                                      ppack_multiplicity := Index_at mo\<rparr>\<rparr>"
      and e: "e = p3"
      unfolding pack_indices_def by (auto split: sum.splits prod.splits)
    note c3 = append_chunk_Inr[OF a3]
    show ?thesis
      using True m' e c3 p2 l2 no lish ishj by (simp add: algebra_simps)
  next
    case False
    from pi a1 a2 False have
      m': "m' = m\<lparr>indices := i2, ion_states_h := ish,
                 ppack := (ppack m)\<lparr>ppack_node_index := Index_at no\<rparr>\<rparr>"
      and e: "e = p2"
      unfolding pack_indices_def by (auto split: sum.splits prod.splits)
    show ?thesis
      using False m' e p2 l2 b2 no lish ishj by (simp add: algebra_simps)
  qed
qed

section \<open>instantiate as a whole\<close>

lemma round_up_ge: "0 < b \<Longrightarrow> v \<le> round_up v b"
proof -
  assume "0 < b"
  then have "v mod b < b" by simp
  moreover have "v mod b \<le> v" by simp
  ultimately show ?thesis unfolding round_up_def by (auto simp del: mod_less_eq_dividend)
qed

lemma round_up_dvd: "b dvd round_up v b"
proof (cases "v mod b = 0")
  case True
  then show ?thesis by (simp add: round_up_def dvd_eq_mod_eq_0)
next
  case False
  have "v - v mod b = (v div b) * b" by (simp add: minus_mod_eq_div_mult)
  then have "round_up v b = (v div b) * b + b" using False by (simp add: round_up_def)
  then show ?thesis by simp
qed

lemma round_up_least:
  assumes "b dvd m" and "v \<le> m"
  shows "round_up v b \<le> m"
proof (cases "v mod b = 0")
  case True
  then show ?thesis using assms by (simp add: round_up_def)
next
  case False
  from assms(1) obtain q where q: "m = b * q" by (auto simp: dvd_def)
  have eq: "v - v mod b = (v div b) * b" by (simp add: minus_mod_eq_div_mult)
  have bpos: "0 < b" using False assms q by (cases "b = 0") auto
  have "v \<noteq> m" using False q by auto
  then have "v < q * b" using assms(2) q by (simp add: mult.commute)
  then have "v div b < q" using bpos by (simp add: div_less_iff_less_mult)
  then have "Suc (v div b) \<le> q" by simp
  then have "b * Suc (v div b) \<le> b * q" by (rule mult_le_mono2)
  then show ?thesis using False eq q by (simp add: round_up_def algebra_simps)
qed

lemma pack_values_keeps:
  "pack_values overrides pos_data m = Inr (m', e) \<Longrightarrow>
     mech m' = mech m \<and> width m' = width m \<and> width_padded m' = width_padded m
     \<and> mult_in_place m' = mult_in_place m \<and> ion_states_h m' = ion_states_h m"
  unfolding pack_values_def by (auto split: sum.splits prod.splits)

lemma set_internal_simps [simp]:
  "mech (set_internal be ident shared pos_data this) = mech this"
  "width (set_internal be ident shared pos_data this) = length (cv pos_data)"
  "width_padded (set_internal be ident shared pos_data this)
     = round_up (length (cv pos_data)) (max (array_alignment be) (iarray_alignment be))"
  "mult_in_place (set_internal be ident shared pos_data this) = (multiplicity pos_data \<noteq> [])"
  "ion_states_h (set_internal be ident shared pos_data this)
     = replicate (length (mech_ions (mech this))) unassigned_ion_state"
  "parameters_h (set_internal be ident shared pos_data this)
     = replicate (length (mech_parameters (mech this))) Unset"
  "state_vars_h (set_internal be ident shared pos_data this)
     = replicate (length (mech_state_vars (mech this))) Unset"
  "globals_h (set_internal be ident shared pos_data this)
     = replicate (length (mech_globals (mech this))) Uninit"
  by (simp_all add: set_internal_def)

lemma instantiate_Missing_iff:
  "instantiate be ident shared overrides pos_data this = Inl Missing_ion \<longleftrightarrow>
     (\<exists>i \<in> set (mech_ions (mech this)).
        ion_data shared (ion_binding_of overrides (ion_name i)) = None)"
proof
  assume "\<exists>i \<in> set (mech_ions (mech this)).
        ion_data shared (ion_binding_of overrides (ion_name i)) = None"
  then have "set_ion_views shared overrides (mech_ions (mech this)) 0
               (replicate (length (mech_ions (mech this))) unassigned_ion_state) = Inl Missing_ion"
    by (simp add: set_ion_views_Missing_iff)
  then show "instantiate be ident shared overrides pos_data this = Inl Missing_ion"
    by (simp add: instantiate_def Let_def)
next
  assume mi: "instantiate be ident shared overrides pos_data this = Inl Missing_ion"
  show "\<exists>i \<in> set (mech_ions (mech this)).
        ion_data shared (ion_binding_of overrides (ion_name i)) = None"
  proof (rule ccontr)
    assume "\<not> ?thesis"
    then have all: "\<forall>i \<in> set (mech_ions (mech this)).
        ion_data shared (ion_binding_of overrides (ion_name i)) \<noteq> None" by simp
    let ?m0 = "set_internal be ident shared pos_data this"
    from all have "set_ion_views shared overrides (mech_ions (mech this)) 0
               (ion_states_h ?m0) \<noteq> Inl Missing_ion"
      using set_ion_views_Missing_iff by blast
    then obtain ish where ish: "set_ion_views shared overrides (mech_ions (mech this)) 0
               (ion_states_h ?m0) = Inr ish"
      by (cases "set_ion_views shared overrides (mech_ions (mech this)) 0 (ion_states_h ?m0)")
         (auto dest: set_ion_views_Inl)
    let ?m1 = "?m0\<lparr>ion_states_h := ish\<rparr>"
    show False
    proof (cases "pack_values overrides pos_data ?m1")
      case (Inl err)
      then have "err \<noteq> Missing_ion" using pack_values_Inl by blast
      then show False using mi ish Inl
        by (auto simp: instantiate_def Let_def split: if_splits)
    next
      case (Inr res)
      obtain m2 ve where res: "res = (m2, ve)" by (cases res)
      from pack_values_keeps[OF Inr[unfolded res]] have "mech m2 = mech this" by simp
      with all have "pack_indices shared overrides pos_data m2 \<noteq> Inl Missing_ion"
        using pack_indices_no_missing by simp
      then show False using mi ish Inr res
        by (auto simp: instantiate_def Let_def split: if_splits sum.splits)
    qed
  qed
qed

lemma instantiate_no_overrun:
  assumes "0 < max (array_alignment be) (iarray_alignment be)"
  shows "instantiate be ident shared overrides pos_data this \<noteq> Inl Buffer_overrun"
proof -
  let ?m0 = "set_internal be ident shared pos_data this"
  have wp: "width ?m0 \<le> width_padded ?m0" using round_up_ge[OF assms] by simp
  show ?thesis
  proof (cases "set_ion_views shared overrides (mech_ions (mech this)) 0 (ion_states_h ?m0)")
    case (Inl err)
    then have "err = Missing_ion" using set_ion_views_Inl by blast
    then show ?thesis using Inl by (simp add: instantiate_def Let_def)
  next
    case (Inr ish)
    let ?m1 = "?m0\<lparr>ion_states_h := ish\<rparr>"
    have wp1: "width ?m1 \<le> width_padded ?m1" using wp by simp
    show ?thesis
    proof (cases "pack_values overrides pos_data ?m1")
      case (Inl err)
      then have "err \<noteq> Buffer_overrun" using pack_values_no_overrun[OF wp1] by auto
      then show ?thesis using \<open>set_ion_views shared overrides (mech_ions (mech this)) 0 (ion_states_h ?m0) = Inr ish\<close> Inl
        by (auto simp: instantiate_def Let_def)
    next
      case (Inr res)
      obtain m2 ve where res: "res = (m2, ve)" by (cases res)
      from pack_values_keeps[OF Inr[unfolded res]] wp1 have "width m2 \<le> width_padded m2" by simp
      from pack_indices_no_overrun[OF this]
      have "pack_indices shared overrides pos_data m2 \<noteq> Inl Buffer_overrun" .
      then show ?thesis using \<open>set_ion_views shared overrides (mech_ions (mech this)) 0 (ion_states_h ?m0) = Inr ish\<close> Inr res
        by (auto simp: instantiate_def Let_def split: sum.splits)
    qed
  qed
qed

lemma pack_indices_keeps:
  "pack_indices shared overrides pos_data m = Inr (m', e) \<Longrightarrow>
     mech m' = mech m \<and> width m' = width m \<and> width_padded m' = width_padded m
     \<and> mult_in_place m' = mult_in_place m \<and> parameters_h m' = parameters_h m
     \<and> state_vars_h m' = state_vars_h m \<and> globals_h m' = globals_h m \<and> data m' = data m
     \<and> ppack_width (ppack m') = ppack_width (ppack m)
     \<and> ppack_weight (ppack m') = ppack_weight (ppack m)
     \<and> ppack_globals (ppack m') = ppack_globals (ppack m)"
  unfolding pack_indices_def by (auto split: sum.splits prod.splits if_splits)

lemma instantiate_Inr_steps:
  assumes "instantiate be ident shared overrides pos_data this = Inr m"
    and "cv pos_data \<noteq> []"
  obtains ish m2 ve m3 ie where
    "set_ion_views shared overrides (mech_ions (mech this)) 0
       (replicate (length (mech_ions (mech this))) unassigned_ion_state) = Inr ish"
    "pack_values overrides pos_data
       ((set_internal be ident shared pos_data this)\<lparr>ion_states_h := ish\<rparr>) = Inr (m2, ve)"
    "pack_indices shared overrides pos_data m2 = Inr (m3, ie)"
    "m = upload m3"
  using assms
  by (auto simp: instantiate_def Let_def split: sum.splits if_splits prod.splits)

lemma instantiate_Inr:
  assumes inst: "instantiate be ident shared overrides pos_data this = Inr m"
    and ne: "cv pos_data \<noteq> []"
  shows "mech m = mech this"
    and "width m = length (cv pos_data)"
    and "width_padded m
           = round_up (length (cv pos_data)) (max (array_alignment be) (iarray_alignment be))"
    and "ppack_width (ppack m) = length (cv pos_data)"
    and "mult_in_place m = (multiplicity pos_data \<noteq> [])"
    and "parameters_h m
           = map (\<lambda>j. Data_at ((1 + j) * length (cv pos_data)))
               [0 ..< length (mech_parameters (mech this))]"
    and "state_vars_h m
           = map (\<lambda>j. Data_at ((1 + length (mech_parameters (mech this)) + j) * length (cv pos_data)))
               [0 ..< length (mech_state_vars (mech this))]"
    and "ppack_weight (ppack m) = Data_at 0"
    and "ppack_globals (ppack m)
           = Data_at ((1 + length (mech_parameters (mech this))
                         + length (mech_state_vars (mech this))) * length (cv pos_data))"
    and "ppack_node_index (ppack m) = Index_at 0"
    and "length (data m) = value_count m"
    and "(1 + length (mech_parameters (mech this)) + length (mech_state_vars (mech this)))
            * length (cv pos_data) + length (mech_globals (mech this)) \<le> length (data m)"
    and "length (indices m) = index_count m"
    and "((if multiplicity pos_data \<noteq> [] then 1 else 0) + length (mech_ions (mech this)) + 1)
            * length (cv pos_data) \<le> length (indices m)"
    and "multiplicity pos_data \<noteq> [] \<Longrightarrow>
           ppack_multiplicity (ppack m)
             = Index_at ((1 + length (mech_ions (mech this))) * length (cv pos_data))"
    and "multiplicity pos_data \<noteq> [] \<Longrightarrow>
           take (length (cv pos_data))
                (drop ((1 + length (mech_ions (mech this))) * length (cv pos_data)) (indices m))
             = copy_source (length (cv pos_data)) None (map Some (multiplicity pos_data))"
    and "parameters_d m = parameters_h m"
    and "state_vars_d m = state_vars_h m"
    and "ion_states_d m = ion_states_h m"
    and "ppack_parameters (ppack m) = Table_at Parameters_d"
    and "ppack_state_vars (ppack m) = Table_at State_vars_d"
    and "ppack_ion_states (ppack m) = Table_at Ion_states_d"
    and "length (globals_h m) = length (mech_globals (mech this))"
proof -
  let ?m0 = "set_internal be ident shared pos_data this"
  from instantiate_Inr_steps[OF inst ne] obtain ish m2 ve m3 ie where
    iv: "set_ion_views shared overrides (mech_ions (mech this)) 0
       (replicate (length (mech_ions (mech this))) unassigned_ion_state) = Inr ish"
    and pv: "pack_values overrides pos_data (?m0\<lparr>ion_states_h := ish\<rparr>) = Inr (m2, ve)"
    and pi: "pack_indices shared overrides pos_data m2 = Inr (m3, ie)"
    and m: "m = upload m3" by blast
  let ?m1 = "?m0\<lparr>ion_states_h := ish\<rparr>"
  have lp: "length (parameters_h ?m1) = length (mech_parameters (mech ?m1))"
    and ls: "length (state_vars_h ?m1) = length (mech_state_vars (mech ?m1))" by simp_all
  note v = pack_values_Inr[OF pv lp ls]
  note k = pack_values_keeps[OF pv]
  note i = pack_indices_Inr[OF pi]
  note k2 = pack_indices_keeps[OF pi]
  have al: "value_count m = value_count ?m1" "index_count m = index_count m2"
    using m k k2 by (simp_all add: upload_def value_count_def index_count_def)
  show "mech m = mech this" using m k k2 by (simp add: upload_def)
  show "width m = length (cv pos_data)" using m k k2 by (simp add: upload_def)
  show "width_padded m
           = round_up (length (cv pos_data)) (max (array_alignment be) (iarray_alignment be))"
    using m k k2 by (simp add: upload_def)
  show "ppack_width (ppack m) = length (cv pos_data)"
    using m k k2 v(6) by (simp add: upload_def set_internal_def)
  show "mult_in_place m = (multiplicity pos_data \<noteq> [])" using m k k2 by (simp add: upload_def)
  show "parameters_h m
           = map (\<lambda>j. Data_at ((1 + j) * length (cv pos_data)))
               [0 ..< length (mech_parameters (mech this))]"
    using m k2 v(4) by (simp add: upload_def)
  show "state_vars_h m
           = map (\<lambda>j. Data_at ((1 + length (mech_parameters (mech this)) + j) * length (cv pos_data)))
               [0 ..< length (mech_state_vars (mech this))]"
    using m k2 v(5) by (simp add: upload_def)
  show "ppack_weight (ppack m) = Data_at 0" using m k2 v(6) by (simp add: upload_def)
  show "ppack_globals (ppack m)
           = Data_at ((1 + length (mech_parameters (mech this))
                         + length (mech_state_vars (mech this))) * length (cv pos_data))"
    using m k2 v(6) by (simp add: upload_def)
  show "ppack_node_index (ppack m) = Index_at 0"
  proof -
    have "ppack_node_index (ppack m3) = Index_at 0" using i by (metis arb_mechanism_ppack.select_convs(15) arb_mechanism_ppack.surjective arb_mechanism_ppack.update_convs(15,16))
    then show ?thesis using m by (simp add: upload_def)
  qed
  show "length (data m) = value_count m" using m k2 v(3) al by (simp add: upload_def)
  show "(1 + length (mech_parameters (mech this)) + length (mech_state_vars (mech this)))
            * length (cv pos_data) + length (mech_globals (mech this)) \<le> length (data m)"
    using m k2 v(1,2) by (simp add: upload_def)
  show "length (indices m) = index_count m" using m i al by (simp add: upload_def)
  show "((if multiplicity pos_data \<noteq> [] then 1 else 0) + length (mech_ions (mech this)) + 1)
            * length (cv pos_data) \<le> length (indices m)"
  proof -
    have "ie = ((if mult_in_place m2 then 1 else 0) + length (mech_ions (mech m2)) + 1) * width m2"
      and "ie \<le> length (indices m3)" using i by blast+
    then show ?thesis using m k by (simp add: upload_def)
  qed
  show "ppack_multiplicity (ppack m)
             = Index_at ((1 + length (mech_ions (mech this))) * length (cv pos_data))"
    if "multiplicity pos_data \<noteq> []"
  proof -
    have "mult_in_place m2" using that k by simp
    then have "ppack_multiplicity (ppack m3)
                 = Index_at ((1 + length (mech_ions (mech m2))) * width m2)" using i by blast
    then show ?thesis using m k by (simp add: upload_def)
  qed
  show "take (length (cv pos_data))
                (drop ((1 + length (mech_ions (mech this))) * length (cv pos_data)) (indices m))
             = copy_source (length (cv pos_data)) None (map Some (multiplicity pos_data))"
    if "multiplicity pos_data \<noteq> []"
  proof -
    have "mult_in_place m2" using that k by simp
    then have "take (width m2) (drop ((1 + length (mech_ions (mech m2))) * width m2) (indices m3))
            = copy_source (width m2) None (map Some (multiplicity pos_data))" using i by blast
    then show ?thesis using m k by (simp add: upload_def)
  qed
  show "parameters_d m = parameters_h m" "state_vars_d m = state_vars_h m"
    "ion_states_d m = ion_states_h m" using m by (simp_all add: upload_def)
  show "ppack_parameters (ppack m) = Table_at Parameters_d"
    "ppack_state_vars (ppack m) = Table_at State_vars_d"
    "ppack_ion_states (ppack m) = Table_at Ion_states_d" using m by (simp_all add: upload_def)
  show "length (globals_h m) = length (mech_globals (mech this))"
    using m k2 v(8) by (simp add: upload_def)
qed

lemma set_ion_views_bound:
  assumes iv: "set_ion_views shared overrides ions 0 ish0 = Inr ish"
    and len: "length ish0 = length ions"
    and j: "j < length ions"
  shows "\<exists>oion. ion_data shared (ion_binding_of overrides (ion_name (ions ! j))) = Some oion
           \<and> ish ! j = braced_ion_state oion"
proof -
  have "set_ion_views shared overrides ions 0 ish0 \<noteq> Inl Missing_ion" using iv by simp
  then have "\<forall>i \<in> set ions. ion_data shared (ion_binding_of overrides (ion_name i)) \<noteq> None"
    using set_ion_views_Missing_iff[of shared overrides ions 0 ish0] by simp
  moreover have "ions ! j \<in> set ions" using j by simp
  ultimately obtain oion
    where o: "ion_data shared (ion_binding_of overrides (ion_name (ions ! j))) = Some oion"
    by auto
  moreover have "ish ! j = braced_ion_state oion"
    using set_ion_views_Inr[OF iv] len j o by simp
  ultimately show ?thesis by blast
qed

lemma instantiate_ion_states:
  assumes inst: "instantiate be ident shared overrides pos_data this = Inr m"
  shows "length (ion_states_h m) = length (mech_ions (mech this))"
    and "\<And>j. j < length (mech_ions (mech this)) \<Longrightarrow>
           \<exists>oion. ion_data shared
                     (ion_binding_of overrides (ion_name (mech_ions (mech this) ! j))) = Some oion
                 \<and> (ion_states_h m ! j)\<lparr>index := Null\<rparr> = braced_ion_state oion
                 \<and> index (ion_states_h m ! j)
                     = (if cv pos_data = [] then Null
                        else Index_at ((1 + j) * length (cv pos_data)))"
proof -
  let ?ions = "mech_ions (mech this)"
  let ?m0 = "set_internal be ident shared pos_data this"
  have both: "length (ion_states_h m) = length ?ions
     \<and> (\<forall>j < length ?ions.
           \<exists>oion. ion_data shared (ion_binding_of overrides (ion_name (?ions ! j))) = Some oion
                 \<and> (ion_states_h m ! j)\<lparr>index := Null\<rparr> = braced_ion_state oion
                 \<and> index (ion_states_h m ! j)
                     = (if cv pos_data = [] then Null
                        else Index_at ((1 + j) * length (cv pos_data))))"
  proof (cases "cv pos_data = []")
    case True
    with inst obtain ish where
      iv: "set_ion_views shared overrides ?ions 0
             (replicate (length ?ions) unassigned_ion_state) = Inr ish"
      and m: "m = ?m0\<lparr>ion_states_h := ish\<rparr>"
      by (auto simp: instantiate_def Let_def split: sum.splits)
    have l: "length ish = length ?ions" using set_ion_views_Inr[OF iv] by simp
    have "\<forall>j < length ?ions.
           \<exists>oion. ion_data shared (ion_binding_of overrides (ion_name (?ions ! j))) = Some oion
                 \<and> (ish ! j)\<lparr>index := Null\<rparr> = braced_ion_state oion
                 \<and> index (ish ! j) = Null"
    proof (intro allI impI)
      fix j assume "j < length ?ions"
      from set_ion_views_bound[OF iv _ this] obtain oion where
        "ion_data shared (ion_binding_of overrides (ion_name (?ions ! j))) = Some oion"
        "ish ! j = braced_ion_state oion" by auto
      then show "\<exists>oion. ion_data shared (ion_binding_of overrides (ion_name (?ions ! j)))
                          = Some oion
                 \<and> (ish ! j)\<lparr>index := Null\<rparr> = braced_ion_state oion
                 \<and> index (ish ! j) = Null"
        by (simp add: braced_ion_state_def)
    qed
    then show ?thesis using True m l by simp
  next
    case False
    from instantiate_Inr_steps[OF inst False] obtain ish m2 ve m3 ie where
      iv: "set_ion_views shared overrides ?ions 0
             (replicate (length ?ions) unassigned_ion_state) = Inr ish"
      and pv: "pack_values overrides pos_data (?m0\<lparr>ion_states_h := ish\<rparr>) = Inr (m2, ve)"
      and pi: "pack_indices shared overrides pos_data m2 = Inr (m3, ie)"
      and m: "m = upload m3" by blast
    have l: "length ish = length ?ions" using set_ion_views_Inr[OF iv] by simp
    note k = pack_values_keeps[OF pv]
    have ish2: "ion_states_h m2 = ish" and mech2: "mech m2 = mech this"
      and w2: "width m2 = length (cv pos_data)" using k by simp_all
    note i = pack_indices_Inr[OF pi]
    have l3: "length (ion_states_h m3) = length ?ions" using i ish2 l by simp
    have e3: "\<And>j. j < length ?ions \<Longrightarrow>
                ion_states_h m3 ! j = (ish ! j)\<lparr>index := Index_at ((1 + j) * length (cv pos_data))\<rparr>"
      using i ish2 mech2 w2 l by simp
    have "\<forall>j < length ?ions.
           \<exists>oion. ion_data shared (ion_binding_of overrides (ion_name (?ions ! j))) = Some oion
                 \<and> (ion_states_h m3 ! j)\<lparr>index := Null\<rparr> = braced_ion_state oion
                 \<and> index (ion_states_h m3 ! j) = Index_at ((1 + j) * length (cv pos_data))"
    proof (intro allI impI)
      fix j assume j: "j < length ?ions"
      from set_ion_views_bound[OF iv _ j] obtain oion where
        "ion_data shared (ion_binding_of overrides (ion_name (?ions ! j))) = Some oion"
        "ish ! j = braced_ion_state oion" by auto
      then show "\<exists>oion. ion_data shared (ion_binding_of overrides (ion_name (?ions ! j)))
                          = Some oion
                 \<and> (ion_states_h m3 ! j)\<lparr>index := Null\<rparr> = braced_ion_state oion
                 \<and> index (ion_states_h m3 ! j) = Index_at ((1 + j) * length (cv pos_data))"
        using e3[OF j] by (simp add: braced_ion_state_def)
    qed
    then show ?thesis using False m l3 by (simp add: upload_def)
  qed
  show "length (ion_states_h m) = length ?ions" using both by blast
  fix j assume "j < length ?ions"
  then show "\<exists>oion. ion_data shared (ion_binding_of overrides (ion_name (?ions ! j))) = Some oion
                 \<and> (ion_states_h m ! j)\<lparr>index := Null\<rparr> = braced_ion_state oion
                 \<and> index (ion_states_h m ! j)
                     = (if cv pos_data = [] then Null
                        else Index_at ((1 + j) * length (cv pos_data)))"
    using both by blast
qed

section \<open>A schema without globals\<close>

lemma ion_binding_of_globals [simp]:
  "ion_binding_of (overrides\<lparr>overrides_globals := g\<rparr>) = ion_binding_of overrides"
  by (rule ext) (simp add: ion_binding_of_def)

lemma set_ion_views_globals [simp]:
  "set_ion_views shared (overrides\<lparr>overrides_globals := g\<rparr>) ions idx ish
     = set_ion_views shared overrides ions idx ish"
  by (induction ions arbitrary: idx ish) (auto split: option.splits)

lemma append_ion_indices_globals [simp]:
  "append_ion_indices shared (overrides\<lparr>overrides_globals := g\<rparr>) pos_data n ions idx s
     = append_ion_indices shared overrides pos_data n ions idx s"
proof (induction ions arbitrary: idx s)
  case Nil
  then show ?case by simp
next
  case (Cons i ions)
  obtain buf ptr ish where s: "s = (buf, ptr, ish)" by (cases s)
  show ?case unfolding s by (simp add: Cons.IH split: option.splits sum.splits)
qed

lemma pack_indices_globals [simp]:
  "pack_indices shared (overrides\<lparr>overrides_globals := g\<rparr>) pos_data m
     = pack_indices shared overrides pos_data m"
  by (simp add: pack_indices_def split: sum.splits prod.splits)

lemma pack_values_no_globals:
  "mech_globals (mech m) = [] \<Longrightarrow>
     pack_values (overrides\<lparr>overrides_globals := g\<rparr>) pos_data m
       = pack_values (overrides\<lparr>overrides_globals := []\<rparr>) pos_data m"
  by (simp add: pack_values_def apply_overrides_no_globals split: sum.splits prod.splits)

lemma instantiate_no_globals:
  assumes "mech_globals (mech this) = []"
  shows "instantiate be ident shared (overrides\<lparr>overrides_globals := g\<rparr>) pos_data this
           = instantiate be ident shared (overrides\<lparr>overrides_globals := []\<rparr>) pos_data this"
proof -
  have "\<And>ish. pack_values (overrides\<lparr>overrides_globals := g\<rparr>) pos_data
                 ((set_internal be ident shared pos_data this)\<lparr>ion_states_h := ish\<rparr>)
               = pack_values (overrides\<lparr>overrides_globals := []\<rparr>) pos_data
                 ((set_internal be ident shared pos_data this)\<lparr>ion_states_h := ish\<rparr>)"
    using assms by (intro pack_values_no_globals) simp
  then show ?thesis by (simp add: instantiate_def Let_def split: sum.splits prod.splits)
qed

lemma instantiate_no_globals_error:
  assumes "mech_globals (mech this) = []"
  shows "instantiate be ident shared overrides pos_data this \<noteq> Inl (No_such_global k)"
proof
  assume a: "instantiate be ident shared overrides pos_data this = Inl (No_such_global k)"
  let ?m0 = "set_internal be ident shared pos_data this"
  from a obtain ish where
    ish: "set_ion_views shared overrides (mech_ions (mech this)) 0 (ion_states_h ?m0) = Inr ish"
    by (cases "set_ion_views shared overrides (mech_ions (mech this)) 0 (ion_states_h ?m0)")
       (auto simp: instantiate_def Let_def dest: set_ion_views_Inl)
  let ?m1 = "?m0\<lparr>ion_states_h := ish\<rparr>"
  show False
  proof (cases "pack_values overrides pos_data ?m1")
    case (Inl err)
    then have "err = No_such_global k" using a ish
      by (auto simp: instantiate_def Let_def split: if_splits)
    moreover have "apply_overrides (mech_globals (mech ?m1)) (overrides_globals overrides)
             (assign_defaults (mech_globals (mech ?m1)) 0 (globals_h ?m1))
           = Inr (assign_defaults (mech_globals (mech ?m1)) 0 (globals_h ?m1))"
      using assms by (simp add: apply_overrides_no_globals)
    then have "err = Buffer_overrun" using Inl unfolding pack_values_def
      by (auto split: sum.splits prod.splits
               dest: append_chunk_Inl append_fields_Inl device_write_Inl)
    ultimately show False by simp
  next
    case (Inr res)
    obtain m2 ve where res: "res = (m2, ve)" by (cases res)
    have "\<And>e. pack_indices shared overrides pos_data m2 = Inl e \<Longrightarrow> e \<noteq> No_such_global k"
      using pack_indices_Inl by blast
    then show False using a ish Inr res
      by (auto simp: instantiate_def Let_def split: if_splits sum.splits)
  qed
qed

lemma pack_values_end:
  assumes pv: "pack_values overrides pos_data m = Inr (m', e)"
  shows "e \<le> length (data m') \<and> length (data m') = value_count m"
proof -
  from pv obtain d1 wo p1 d2 p2 ph d3 p3 sh gh d4 where
    a1: "append_chunk (width m) Uninit (weight pos_data) (replicate (value_count m) NaN) 0
           = Inr (d1, wo, p1)"
    and a2: "append_fields (width m) (mech_parameters (mech m)) 0 (d1, p1, parameters_h m)
           = Inr (d2, p2, ph)"
    and a3: "append_fields (width m) (mech_state_vars (mech m)) 0 (d2, p2, state_vars_h m)
           = Inr (d3, p3, sh)"
    and a5: "device_write d3 p3 (copy_source (length (mech_globals (mech m))) Uninit gh) = Inr d4"
    and d: "data m' = d4"
    and e: "e = p3 + length (mech_globals (mech m))"
    unfolding pack_values_def by (auto split: sum.splits prod.splits)
  have "length d1 = value_count m" using append_chunk_Inr(4)[OF a1] by simp
  then have "length d2 = value_count m" using append_fields_Inr[OF a2] by simp
  then have l3: "length d3 = value_count m" using append_fields_Inr[OF a3] by simp
  then show ?thesis using device_write_Inr(1,2)[OF a5] d e by simp
qed

section \<open>initialize\<close>

lemma scale_state_vars_zero_width:
  "ppack_width (ppack m) = 0 \<Longrightarrow> idx + k \<le> length (state_vars_h m) \<Longrightarrow>
     scale_state_vars m k idx d = Inr d"
  by (induction k arbitrary: idx d) (auto simp: multiply_in_place_def)

lemma scaling_step_zero_width:
  assumes "ppack_width (ppack m) = 0"
    and "length (state_vars_h m) = length (mech_state_vars (mech m))"
  shows "scaling_step m = Inr m"
  using scale_state_vars_zero_width[OF assms(1), of 0 "length (mech_state_vars (mech m))" "data m"]
    assms(2)
  by (simp add: scaling_step_def)

lemma run_kernel_simps [simp]:
  "mech (run_kernel k m) = mech m"
  "mult_in_place (run_kernel k m) = mult_in_place m"
  "width (run_kernel k m) = width m"
  "ppack (run_kernel k m) = ppack m"
  "state_vars_h (run_kernel k m) = state_vars_h m"
  "indices (run_kernel k m) = indices m"
  "length (data (run_kernel k m)) = length (data m)"
  by (simp_all add: run_kernel_def)

lemma set_time_ptr_simps [simp]:
  "mech (set_time_ptr c m) = mech m"
  "mult_in_place (set_time_ptr c m) = mult_in_place m"
  "width (set_time_ptr c m) = width m"
  "ppack_width (ppack (set_time_ptr c m)) = ppack_width (ppack m)"
  "ppack_multiplicity (ppack (set_time_ptr c m)) = ppack_multiplicity (ppack m)"
  "state_vars_h (set_time_ptr c m) = state_vars_h m"
  "indices (set_time_ptr c m) = indices m"
  "data (set_time_ptr c m) = data m"
  by (simp_all add: set_time_ptr_def)

lemma run_kernel_no_data: "data m = [] \<Longrightarrow> run_kernel k m = m"
  by (simp add: run_kernel_def)

lemma instantiate_zero_width:
  assumes cv: "cv pos_data = []"
    and iv: "set_ion_views shared overrides (mech_ions (mech this)) 0
               (replicate (length (mech_ions (mech this))) unassigned_ion_state) = Inr ish"
  shows "instantiate be ident shared overrides pos_data this
           = Inr ((set_internal be ident shared pos_data this)\<lparr>ion_states_h := ish\<rparr>)"
  using cv iv by (simp add: instantiate_def Let_def)

lemma multiply_in_place_ok:
  "so + n \<le> length d \<Longrightarrow> po + n \<le> length ix \<Longrightarrow>
     \<exists>d'. multiply_in_place (Data_at so) (Index_at po) n d ix = Inr d'"
  by (simp add: multiply_in_place_def)

lemma multiply_in_place_Inr:
  assumes "multiply_in_place (Data_at so) (Index_at po) n d ix = Inr d'"
  shows "length d' = length d"
    and "\<And>c. c < length d \<Longrightarrow>
           d' ! c = (if so \<le> c \<and> c < so + n then fmul (d ! c) (ix ! (po + (c - so))) else d ! c)"
proof -
  show "length d' = length d"
    using assms by (auto simp: multiply_in_place_def split: if_splits)
  fix c assume c: "c < length d"
  show "d' ! c = (if so \<le> c \<and> c < so + n then fmul (d ! c) (ix ! (po + (c - so))) else d ! c)"
  proof (cases "n = 0")
    case True
    then show ?thesis using assms by (auto simp: multiply_in_place_def)
  next
    case False
    with assms have le: "so + n \<le> length d" "po + n \<le> length ix"
      and d': "d' = take so d @ map2 fmul (take n (drop so d)) (take n (drop po ix))
                      @ drop (so + n) d"
      by (auto simp: multiply_in_place_def split: if_splits)
    let ?mid = "map2 fmul (take n (drop so d)) (take n (drop po ix))"
    have lm: "length ?mid = n" using le by simp
    consider "c < so" | "so \<le> c" "c < so + n" | "so + n \<le> c" by linarith
    then show ?thesis
    proof cases
      case 1
      then show ?thesis using d' le by (simp add: nth_append)
    next
      case 2
      then have i: "c - so < n" by simp
      have "d' ! c = (?mid @ drop (so + n) d) ! (c - so)"
        using 2 d' le by (simp add: nth_append)
      also have "\<dots> = ?mid ! (c - so)" using i lm by (simp add: nth_append)
      also have "\<dots> = fmul (d ! c) (ix ! (po + (c - so)))" using 2 i le by simp
      finally show ?thesis using 2 by simp
    next
      case 3
      then have i: "\<not> c - so < n" "so \<le> c" by simp_all
      have "d' ! c = (?mid @ drop (so + n) d) ! (c - so)"
        using 3 d' le by (simp add: nth_append)
      also have "\<dots> = drop (so + n) d ! (c - so - n)" using i lm by (simp add: nth_append)
      also have "\<dots> = d ! c" using 3 c by simp
      finally show ?thesis using 3 by simp
    qed
  qed
qed

lemma scale_state_vars_layout:
  assumes sv: "state_vars_h m = map (\<lambda>j. Data_at (b + j * w)) [0 ..< ns]"
    and mp: "ppack_multiplicity (ppack m) = Index_at po"
    and pw: "ppack_width (ppack m) = w"
    and ix: "po + w \<le> length (indices m)"
    and w: "0 < w"
  shows "idx + k = ns \<Longrightarrow> b + ns * w \<le> length d \<Longrightarrow>
     \<exists>d'. scale_state_vars m k idx d = Inr d' \<and> length d' = length d
        \<and> (\<forall>c < length d. d' ! c =
              (if b + idx * w \<le> c \<and> c < b + ns * w
               then fmul (d ! c) (indices m ! (po + (c - b) mod w)) else d ! c))"
proof (induction k arbitrary: idx d)
  case 0
  then show ?case by auto
next
  case (Suc k)
  from Suc.prems have idx: "idx < ns" by simp
  then have p: "state_vars_h m ! idx = Data_at (b + idx * w)" using sv by simp
  have "Suc idx * w \<le> ns * w" using idx by (intro mult_le_mono1) simp
  then have le: "(b + idx * w) + w \<le> length d" using Suc.prems(2) by simp
  from multiply_in_place_ok[OF le ix] obtain d1
    where d1: "multiply_in_place (Data_at (b + idx * w)) (Index_at po) w d (indices m) = Inr d1"
    by blast
  note n1 = multiply_in_place_Inr[OF d1]
  have "Suc idx + k = ns" using Suc.prems(1) by simp
  moreover have "b + ns * w \<le> length d1" using Suc.prems(2) n1(1) by simp
  ultimately obtain d' where
    r: "scale_state_vars m k (Suc idx) d1 = Inr d'" and l: "length d' = length d1"
    and c': "\<forall>c < length d1. d' ! c =
              (if b + Suc idx * w \<le> c \<and> c < b + ns * w
               then fmul (d1 ! c) (indices m ! (po + (c - b) mod w)) else d1 ! c)"
    using Suc.IH by blast
  have step: "scale_state_vars m (Suc k) idx d = Inr d'"
    using idx sv p mp pw d1 r by simp
  have cells: "\<forall>c < length d. d' ! c =
              (if b + idx * w \<le> c \<and> c < b + ns * w
               then fmul (d ! c) (indices m ! (po + (c - b) mod w)) else d ! c)"
  proof (intro allI impI)
    fix c assume c: "c < length d"
    then have c1: "c < length d1" using n1(1) by simp
    have "Suc idx * w = idx * w + w" by simp
    then consider "c < b + idx * w" | "b + idx * w \<le> c" "c < b + idx * w + w"
      | "b + Suc idx * w \<le> c" by linarith
    then show "d' ! c =
              (if b + idx * w \<le> c \<and> c < b + ns * w
               then fmul (d ! c) (indices m ! (po + (c - b) mod w)) else d ! c)"
    proof cases
      case 1
      then have "d' ! c = d1 ! c" using c' c1 by simp
      then show ?thesis using 1 n1(2)[OF c] by simp
    next
      case 2
      then have "d' ! c = d1 ! c" using c' c1 by simp
      moreover have "d1 ! c = fmul (d ! c) (indices m ! (po + (c - (b + idx * w))))"
        using 2 n1(2)[OF c] by simp
      moreover have "(c - b) mod w = c - (b + idx * w)"
      proof -
        have "c - b = idx * w + (c - (b + idx * w))" using 2 by simp
        moreover have "c - (b + idx * w) < w" using 2 by simp
        ultimately show ?thesis by (metis mod_less mod_mult_self3 mult.commute)
      qed
      moreover have "c < b + ns * w" using 2 le \<open>Suc idx * w \<le> ns * w\<close> by simp
      ultimately show ?thesis using 2 by simp
    next
      case 3
      then have "d1 ! c = d ! c" using n1(2)[OF c] by simp
      moreover have "b + idx * w \<le> c" using 3 by simp
      ultimately show ?thesis using 3 c' c1 by simp
    qed
  qed
  show ?case using step l n1(1) cells by simp
qed

lemma initialize_after_instantiate:
  assumes inst: "instantiate be ident shared overrides pos_data this = Inr m"
    and ne: "cv pos_data \<noteq> []"
    and mu: "multiplicity pos_data \<noteq> []"
  shows "\<exists>d'. initialize init_mechanism clock m
                = Inr ((run_kernel init_mechanism (set_time_ptr clock m))\<lparr>data := d'\<rparr>)
     \<and> length d' = length (data m)
     \<and> (\<forall>c < length (data m). d' ! c =
           (if (1 + length (mech_parameters (mech this))) * length (cv pos_data) \<le> c
               \<and> c < (1 + length (mech_parameters (mech this))
                          + length (mech_state_vars (mech this))) * length (cv pos_data)
            then fmul (data (run_kernel init_mechanism (set_time_ptr clock m)) ! c)
                   (indices m ! ((1 + length (mech_ions (mech this))) * length (cv pos_data)
                       + (c - (1 + length (mech_parameters (mech this))) * length (cv pos_data))
                           mod length (cv pos_data)))
            else data (run_kernel init_mechanism (set_time_ptr clock m)) ! c))"
proof -
  let ?w = "length (cv pos_data)"
  let ?np = "length (mech_parameters (mech this))"
  let ?ns = "length (mech_state_vars (mech this))"
  let ?ni = "length (mech_ions (mech this))"
  let ?mk = "run_kernel init_mechanism (set_time_ptr clock m)"
  note L = instantiate_Inr[OF inst ne]
  have w: "0 < ?w" using ne by simp
  have sv: "state_vars_h ?mk = map (\<lambda>j. Data_at ((1 + ?np) * ?w + j * ?w)) [0 ..< ?ns]"
    using L(7) by (simp add: algebra_simps)
  have mp: "ppack_multiplicity (ppack ?mk) = Index_at ((1 + ?ni) * ?w)"
    using L(15)[OF mu] by simp
  have pw: "ppack_width (ppack ?mk) = ?w" using L(4) by simp
  have ix: "(1 + ?ni) * ?w + ?w \<le> length (indices ?mk)"
    using L(14) mu by (simp add: algebra_simps)
  have dl: "(1 + ?np) * ?w + ?ns * ?w \<le> length (data ?mk)"
    using L(12) by (simp add: algebra_simps)
  from scale_state_vars_layout[OF sv mp pw ix w, of 0 ?ns "data ?mk"] dl
  obtain d' where
    r: "scale_state_vars ?mk ?ns 0 (data ?mk) = Inr d'"
    and l: "length d' = length (data ?mk)"
    and c: "\<forall>c < length (data ?mk). d' ! c =
              (if (1 + ?np) * ?w + 0 * ?w \<le> c \<and> c < (1 + ?np) * ?w + ?ns * ?w
               then fmul (data ?mk ! c)
                      (indices ?mk ! ((1 + ?ni) * ?w + (c - (1 + ?np) * ?w) mod ?w))
               else data ?mk ! c)"
    by auto
  have "mult_in_place ?mk" using L(5) mu by simp
  moreover have "scaling_step ?mk = Inr (?mk\<lparr>data := d'\<rparr>)"
    using r L(1) by (simp add: scaling_step_def)
  ultimately have "initialize init_mechanism clock m = Inr (?mk\<lparr>data := d'\<rparr>)"
    by (simp add: initialize_def Let_def)
  moreover have "length d' = length (data m)" using l by simp
  moreover have "\<forall>c < length (data m). d' ! c =
           (if (1 + ?np) * ?w \<le> c \<and> c < (1 + ?np + ?ns) * ?w
            then fmul (data ?mk ! c)
                   (indices m ! ((1 + ?ni) * ?w + (c - (1 + ?np) * ?w) mod ?w))
            else data ?mk ! c)"
    using c by (simp add: algebra_simps)
  ultimately show ?thesis by blast
qed

lemma multiplicity_cell:
  assumes inst: "instantiate be ident shared overrides pos_data this = Inr m"
    and ne: "cv pos_data \<noteq> []"
    and mu: "length (multiplicity pos_data) = length (cv pos_data)"
    and i: "i < length (cv pos_data)"
  shows "indices m ! ((1 + length (mech_ions (mech this))) * length (cv pos_data) + i)
           = Some (multiplicity pos_data ! i)"
proof -
  let ?w = "length (cv pos_data)"
  let ?po = "(1 + length (mech_ions (mech this))) * ?w"
  have mne: "multiplicity pos_data \<noteq> []" using mu ne by auto
  note L = instantiate_Inr[OF inst ne]
  have "?po + ?w \<le> length (indices m)" using L(14) mne by (simp add: algebra_simps)
  then have "indices m ! (?po + i) = take ?w (drop ?po (indices m)) ! i" using i by simp
  also have "\<dots> = copy_source ?w None (map Some (multiplicity pos_data)) ! i"
    using L(16)[OF mne] by simp
  also have "\<dots> = Some (multiplicity pos_data ! i)" using mu i by (simp add: copy_source_def)
  finally show ?thesis .
qed

lemma instantiate_mult_in_place:
  assumes "instantiate be ident shared overrides pos_data this = Inr m"
  shows "mult_in_place m = (multiplicity pos_data \<noteq> [])"
proof (cases "cv pos_data = []")
  case True
  with assms show ?thesis
    by (auto simp: instantiate_def Let_def split: sum.splits)
next
  case False
  from instantiate_Inr(5)[OF assms False] show ?thesis .
qed

lemma initialize_zero_width:
  assumes inst: "instantiate be ident shared overrides pos_data this = Inr m"
    and cv: "cv pos_data = []"
  shows "initialize init_mechanism clock m
           = Inr (run_kernel init_mechanism (set_time_ptr clock m))"
proof -
  from inst cv obtain ish
    where m: "m = (set_internal be ident shared pos_data this)\<lparr>ion_states_h := ish\<rparr>"
    by (auto simp: instantiate_def Let_def split: sum.splits)
  let ?mk = "run_kernel init_mechanism (set_time_ptr clock m)"
  have w0: "ppack_width (ppack ?mk) = 0" using m cv by (simp add: set_internal_def)
  have ls: "length (state_vars_h ?mk) = length (mech_state_vars (mech ?mk))" using m by simp
  show ?thesis using scaling_step_zero_width[OF w0 ls] by (simp add: initialize_def Let_def)
qed

section \<open>The claims\<close>

subsection \<open>C1: the stride of the chunks\<close>

text \<open>
  C1. One site, alignment 4, so \<open>width = 1\<close> and \<open>width_padded = 4\<close>; one parameter,
  one state variable, one global, one ion and a multiplicity. The chunks of the value
  buffer start at 0, 1, 2 and the globals at 3; the chunks of the index buffer start at
  0, 1, 2. Each append advanced \<^verbatim>\<open>base_ptr\<close> by \<open>width\<close>, not by \<open>width_padded\<close>.
\<close>

theorem chunk_stride_is_width:
  "(case instantiate \<lparr>array_alignment = 4, iarray_alignment = 4\<rparr> 0
           (example_shared [''ca'' \<mapsto> example_ca])
           \<lparr>overrides_globals = [], ion_rebind = [''x'' \<mapsto> ''ca'']\<rparr>
           \<lparr>cv = [3], weight = [Val 1], multiplicity = [2]\<rparr> (fresh_mechanism schema_psx) of
      Inl e \<Rightarrow> False
    | Inr m \<Rightarrow>
        width m = 1 \<and> width_padded m = 4
        \<and> ppack_weight (ppack m) = Data_at 0
        \<and> parameters_h m = [Data_at 1]
        \<and> state_vars_h m = [Data_at 2]
        \<and> ppack_globals (ppack m) = Data_at 3
        \<and> data m = [Val 1, Val 3, Val 4, Val 1] @ replicate 9 NaN
        \<and> ppack_node_index (ppack m) = Index_at 0
        \<and> map index (ion_states_h m) = [Index_at 1]
        \<and> ppack_multiplicity (ppack m) = Index_at 2
        \<and> indices m = [Some 3, Some 2, Some 2] @ replicate 9 None)"
  by (simp add: example_defs instantiate_defs)

subsection \<open>C2: an override of the second global\<close>

text \<open>
  C2. With the schema globals \<open>a = 1.0\<close> and \<open>b = 2.0\<close> and the single override
  \<open>b = 5.0\<close>, on one site, \<^verbatim>\<open>instantiate\<close> throws "no such mechanism global 'b'":
  the first global is \<open>a\<close>, its name differs from \<open>b\<close>, and \<open>found\<close> is still false
  when line 137 tests it.
\<close>

theorem override_of_second_global_throws:
  "instantiate \<lparr>array_alignment = 1, iarray_alignment = 1\<rparr> 0 (example_shared Map.empty)
     \<lparr>overrides_globals = [(''b'', Val 5)], ion_rebind = Map.empty\<rparr>
     \<lparr>cv = [0], weight = [Val 1], multiplicity = []\<rparr> (fresh_mechanism schema_ab)
   = Inl (No_such_global ''b'')"
  by (simp add: example_defs instantiate_defs)

subsection \<open>C3: the index join\<close>

text \<open>
  C3. Whenever every needle of \<open>A\<close> occurs in the haystack \<open>B\<close>, the join returns a
  sequence \<open>C\<close> as long as \<open>A\<close> whose entry \<open>k\<close> is a position of \<open>B\<close> that holds
  \<open>A[k]\<close>; nothing is asked of the order of \<open>A\<close> or of its elements being distinct.
  For the needles 3, 7, 2 and the haystack 1 to 7 it returns 2, 6, 1.
\<close>

theorem index_into_positions:
  "(set A \<subseteq> set B \<longrightarrow>
      (\<exists>C. index_into A B = Some C \<and> length C = length A
         \<and> (\<forall>k < length A. C ! k < length B \<and> B ! (C ! k) = A ! k)))
   \<and> index_into [3, 7, 2 :: int] [1, 2, 3, 4, 5, 6, 7] = Some [2, 6, 1]"
  using index_into_Some[of A B] by simp

theorem index_into_positions_witness:
  "set [3, 7, 3, 2 :: int] \<subseteq> set [1, 2, 3, 4, 5, 6, 7]
   \<and> (\<exists>C. index_into [3, 7, 3, 2 :: int] [1, 2, 3, 4, 5, 6, 7] = Some C
        \<and> length C = length [3, 7, 3, 2 :: int]
        \<and> (\<forall>k < length [3, 7, 3, 2 :: int].
              C ! k < length [1, 2, 3, 4, 5, 6, 7 :: int]
              \<and> [1, 2, 3, 4, 5, 6, 7] ! (C ! k) = [3, 7, 3, 2 :: int] ! k))"
proof -
  have sub: "set [3, 7, 3, 2 :: int] \<subseteq> set [1, 2, 3, 4, 5, 6, 7]" by simp
  with index_into_positions[of "[3, 7, 3, 2 :: int]" "[1, 2, 3, 4, 5, 6, 7]"]
  show ?thesis by blast
qed

subsection \<open>C4: the instance with no site\<close>

text \<open>
  C4, as the claim states it. With no site, a fresh instance of the schema with one
  parameter, one state variable, one global and one ion comes back with its parameter
  and state-variable tables unassigned, its global unresolved, a null ion index, no
  device-side table and every pointer of the parameter pack that the claim lists still
  unassigned.
\<close>

theorem zero_width_tables_not_populated:
  "(case instantiate \<lparr>array_alignment = 4, iarray_alignment = 4\<rparr> 0
           (example_shared [''ca'' \<mapsto> example_ca])
           \<lparr>overrides_globals = [], ion_rebind = [''x'' \<mapsto> ''ca'']\<rparr>
           \<lparr>cv = [], weight = [], multiplicity = []\<rparr> (fresh_mechanism schema_psx) of
      Inl e \<Rightarrow> False
    | Inr m \<Rightarrow>
        parameters_h m = [Unset] \<and> state_vars_h m = [Unset] \<and> globals_h m = [Uninit]
        \<and> map index (ion_states_h m) = [Null]
        \<and> parameters_d m = [] \<and> state_vars_d m = [] \<and> ion_states_d m = []
        \<and> ppack_parameters (ppack m) = Unset \<and> ppack_state_vars (ppack m) = Unset
        \<and> ppack_ion_states (ppack m) = Unset \<and> ppack_globals (ppack m) = Unset
        \<and> ppack_weight (ppack m) = Unset \<and> ppack_node_index (ppack m) = Unset)"
  by (simp add: example_defs instantiate_defs)

text \<open>
  C4, amended. With no site and every declared ion bound, \<^verbatim>\<open>instantiate\<close> returns
  after binding the ions. The host tables of parameters, state variables and globals have
  their schema length and no entry assigned; each ion record holds the five pointers of
  its bound ion and a null index; the device-side tables, both buffers and the pointers of
  the parameter pack to the tables, the globals, the weight, the node index and the
  multiplicity are what they were before the call. On that instance the scaling step of
  \<^verbatim>\<open>initialize\<close> changes nothing: \<^verbatim>\<open>initialize\<close> is the clock refresh followed by the
  generated kernel, and the clock refresh alone when the instance had no value buffer.
\<close>

theorem zero_width_instance:
  assumes "cv pos_data = []"
    and "\<forall>i \<in> set (mech_ions (mech this)).
           ion_data shared (ion_binding_of overrides (ion_name i)) \<noteq> None"
  shows "\<exists>m. instantiate be ident shared overrides pos_data this = Inr m
     \<and> width m = 0
     \<and> parameters_h m = replicate (length (mech_parameters (mech this))) Unset
     \<and> state_vars_h m = replicate (length (mech_state_vars (mech this))) Unset
     \<and> globals_h m = replicate (length (mech_globals (mech this))) Uninit
     \<and> length (ion_states_h m) = length (mech_ions (mech this))
     \<and> (\<forall>j < length (mech_ions (mech this)).
           \<exists>oion. ion_data shared
                     (ion_binding_of overrides (ion_name (mech_ions (mech this) ! j))) = Some oion
                 \<and> ion_states_h m ! j = braced_ion_state oion
                 \<and> index (ion_states_h m ! j) = Null)
     \<and> parameters_d m = parameters_d this \<and> state_vars_d m = state_vars_d this
     \<and> ion_states_d m = ion_states_d this
     \<and> data m = data this \<and> indices m = indices this
     \<and> ppack_parameters (ppack m) = ppack_parameters (ppack this)
     \<and> ppack_state_vars (ppack m) = ppack_state_vars (ppack this)
     \<and> ppack_ion_states (ppack m) = ppack_ion_states (ppack this)
     \<and> ppack_globals (ppack m) = ppack_globals (ppack this)
     \<and> ppack_weight (ppack m) = ppack_weight (ppack this)
     \<and> ppack_node_index (ppack m) = ppack_node_index (ppack this)
     \<and> ppack_multiplicity (ppack m) = ppack_multiplicity (ppack this)
     \<and> initialize init_mechanism clock m
           = Inr (run_kernel init_mechanism (set_time_ptr clock m))
     \<and> (data this = [] \<longrightarrow> initialize init_mechanism clock m = Inr (set_time_ptr clock m))"
proof -
  let ?ions = "mech_ions (mech this)"
  let ?m0 = "set_internal be ident shared pos_data this"
  from assms(2) have "set_ion_views shared overrides ?ions 0
               (replicate (length ?ions) unassigned_ion_state) \<noteq> Inl Missing_ion"
    using set_ion_views_Missing_iff by blast
  then obtain ish where iv: "set_ion_views shared overrides ?ions 0
               (replicate (length ?ions) unassigned_ion_state) = Inr ish"
    by (cases "set_ion_views shared overrides ?ions 0
               (replicate (length ?ions) unassigned_ion_state)")
       (auto dest: set_ion_views_Inl)
  let ?m = "?m0\<lparr>ion_states_h := ish\<rparr>"
  have inst: "instantiate be ident shared overrides pos_data this = Inr ?m"
    by (rule instantiate_zero_width[OF assms(1) iv])
  note r = set_ion_views_Inr[OF iv]
  have len: "length ish = length ?ions" using r by simp
  have ions: "\<forall>j < length ?ions.
           \<exists>oion. ion_data shared (ion_binding_of overrides (ion_name (?ions ! j))) = Some oion
                 \<and> ish ! j = braced_ion_state oion \<and> index (ish ! j) = Null"
  proof (intro allI impI)
    fix j assume j: "j < length ?ions"
    then have "?ions ! j \<in> set ?ions" by simp
    with assms(2) obtain oion
      where o: "ion_data shared (ion_binding_of overrides (ion_name (?ions ! j))) = Some oion"
      by auto
    moreover have "ish ! j = braced_ion_state oion" using r j o by simp
    ultimately show "\<exists>oion. ion_data shared (ion_binding_of overrides (ion_name (?ions ! j)))
                         = Some oion
                 \<and> ish ! j = braced_ion_state oion \<and> index (ish ! j) = Null"
      by (simp add: braced_ion_state_def)
  qed
  let ?m' = "run_kernel init_mechanism (set_time_ptr clock ?m)"
  have w0: "ppack_width (ppack ?m') = 0" using assms(1) by (simp add: set_internal_def)
  have ls: "length (state_vars_h ?m') = length (mech_state_vars (mech ?m'))" by simp
  have init: "initialize init_mechanism clock ?m = Inr ?m'"
    using scaling_step_zero_width[OF w0 ls] by (simp add: initialize_def Let_def)
  have init0: "data this = [] \<longrightarrow> initialize init_mechanism clock ?m = Inr (set_time_ptr clock ?m)"
  proof
    assume "data this = []"
    then have "data (set_time_ptr clock ?m) = []" by (simp add: set_internal_def)
    then show "initialize init_mechanism clock ?m = Inr (set_time_ptr clock ?m)"
      using init run_kernel_no_data by simp
  qed
  have fields: "width ?m = 0"
    "parameters_h ?m = replicate (length (mech_parameters (mech this))) Unset"
    "state_vars_h ?m = replicate (length (mech_state_vars (mech this))) Unset"
    "globals_h ?m = replicate (length (mech_globals (mech this))) Uninit"
    "parameters_d ?m = parameters_d this" "state_vars_d ?m = state_vars_d this"
    "ion_states_d ?m = ion_states_d this" "data ?m = data this" "indices ?m = indices this"
    "ppack_parameters (ppack ?m) = ppack_parameters (ppack this)"
    "ppack_state_vars (ppack ?m) = ppack_state_vars (ppack this)"
    "ppack_ion_states (ppack ?m) = ppack_ion_states (ppack this)"
    "ppack_globals (ppack ?m) = ppack_globals (ppack this)"
    "ppack_weight (ppack ?m) = ppack_weight (ppack this)"
    "ppack_node_index (ppack ?m) = ppack_node_index (ppack this)"
    "ppack_multiplicity (ppack ?m) = ppack_multiplicity (ppack this)"
    using assms(1) by (simp_all add: set_internal_def)
  have ish: "ion_states_h ?m = ish" by simp
  show ?thesis
    apply (rule exI[of _ ?m])
    apply (intro conjI)
    apply (rule inst)
    apply (rule fields)+
    apply (simp only: ish len)
    apply (simp only: ish)
    apply (rule ions)
    apply (rule fields)+
    apply (rule init)
    apply (rule init0)
    done
qed

theorem zero_width_instance_witness:
  "\<exists>m. instantiate \<lparr>array_alignment = 4, iarray_alignment = 4\<rparr> 0
           (example_shared [''ca'' \<mapsto> example_ca])
           \<lparr>overrides_globals = [], ion_rebind = [''x'' \<mapsto> ''ca'']\<rparr>
           \<lparr>cv = [], weight = [], multiplicity = []\<rparr> (fresh_mechanism schema_psx) = Inr m
      \<and> width m = 0
      \<and> parameters_h m
           = replicate (length (mech_parameters (mech (fresh_mechanism schema_psx)))) Unset
      \<and> ppack_weight (ppack m) = ppack_weight (ppack (fresh_mechanism schema_psx))
      \<and> initialize (\<lambda>pp d k. d ! k) (Shared_at 10) m = Inr (set_time_ptr (Shared_at 10) m)"
proof -
  have h1: "cv \<lparr>cv = [], weight = [], multiplicity = []\<rparr> = []" by simp
  have h2: "\<forall>i \<in> set (mech_ions (mech (fresh_mechanism schema_psx))).
              ion_data (example_shared [''ca'' \<mapsto> example_ca])
                (ion_binding_of \<lparr>overrides_globals = [], ion_rebind = [''x'' \<mapsto> ''ca'']\<rparr>
                   (ion_name i)) \<noteq> None"
    by (simp add: example_defs ion_binding_of_def)
  have h3: "data (fresh_mechanism schema_psx) = []" by (simp add: fresh_mechanism_def)
  from zero_width_instance[OF h1 h2,
         where be = "\<lparr>array_alignment = 4, iarray_alignment = 4\<rparr>" and ident = 0
           and init_mechanism = "\<lambda>pp d k. d ! k" and clock = "Shared_at 10"]
  obtain m where
    "instantiate \<lparr>array_alignment = 4, iarray_alignment = 4\<rparr> 0
           (example_shared [''ca'' \<mapsto> example_ca])
           \<lparr>overrides_globals = [], ion_rebind = [''x'' \<mapsto> ''ca'']\<rparr>
           \<lparr>cv = [], weight = [], multiplicity = []\<rparr> (fresh_mechanism schema_psx) = Inr m"
    "width m = 0"
    "parameters_h m
           = replicate (length (mech_parameters (mech (fresh_mechanism schema_psx)))) Unset"
    "ppack_weight (ppack m) = ppack_weight (ppack (fresh_mechanism schema_psx))"
    "data (fresh_mechanism schema_psx) = [] \<longrightarrow>
       initialize (\<lambda>pp d k. d ! k) (Shared_at 10) m = Inr (set_time_ptr (Shared_at 10) m)"
    by blast
  with h3 show ?thesis by blast
qed

subsection \<open>C5: the ion table\<close>

text \<open>
  C5. The ion \<open>x\<close> is rebound to \<open>ca\<close>, whose internal concentration \<^verbatim>\<open>Xi_\<close> lies at
  address 22 and whose external concentration \<^verbatim>\<open>Xo_\<close> at address 23.
  \<^verbatim>\<open>ion_table\<close> returns the entry \<open>x\<close> with the pointers of \<open>ca\<close>, but with the
  internal concentration in the slot of the external one and the external concentration
  in the slot of the internal one.
\<close>

theorem ion_table_swaps_concentrations:
  "Xi example_ca = Shared_at 22 \<and> Xo example_ca = Shared_at 23
   \<and> (case instantiate \<lparr>array_alignment = 4, iarray_alignment = 4\<rparr> 0
           (example_shared [''ca'' \<mapsto> example_ca])
           \<lparr>overrides_globals = [], ion_rebind = [''x'' \<mapsto> ''ca'']\<rparr>
           \<lparr>cv = [3], weight = [Val 1], multiplicity = []\<rparr> (fresh_mechanism schema_psx) of
      Inl e \<Rightarrow> False
    | Inr m \<Rightarrow>
        ion_table m =
          [(''x'',
            \<lparr>view_current_density = Shared_at 20, view_external_concentration = Shared_at 22,
             view_internal_concentration = Shared_at 23, view_ionic_charge = Shared_at 24\<rparr>,
            Index_at 1)])"
  by (simp add: example_defs instantiate_defs ion_table_def)

subsection \<open>C6: missing ions\<close>

text \<open>
  C6. \<^verbatim>\<open>instantiate\<close> resolves the name of a declared ion to the name the rebind table
  maps it to, or to the declared name when the table has no entry for it. It throws the
  missing-ion error exactly when the shared state has no ion under the resolved name of
  some declared ion; and when it returns an instance, the record of every declared ion
  holds the five pointers of the shared-state ion under its resolved name.
\<close>

theorem missing_ion_iff:
  "(instantiate be ident shared overrides pos_data this = Inl Missing_ion \<longleftrightarrow>
     (\<exists>i \<in> set (mech_ions (mech this)).
        ion_data shared
          (case ion_rebind overrides (ion_name i) of Some b \<Rightarrow> b | None \<Rightarrow> ion_name i) = None))
   \<and> (\<forall>m. instantiate be ident shared overrides pos_data this = Inr m \<longrightarrow>
          length (ion_states_h m) = length (mech_ions (mech this))
        \<and> (\<forall>j < length (mech_ions (mech this)).
              \<exists>oion.
                ion_data shared
                  (case ion_rebind overrides (ion_name (mech_ions (mech this) ! j)) of
                     Some b \<Rightarrow> b
                   | None \<Rightarrow> ion_name (mech_ions (mech this) ! j)) = Some oion
                \<and> current_density (ion_states_h m ! j) = iX oion
                \<and> reversal_potential (ion_states_h m ! j) = eX oion
                \<and> internal_concentration (ion_states_h m ! j) = Xi oion
                \<and> external_concentration (ion_states_h m ! j) = Xo oion
                \<and> ionic_charge (ion_states_h m ! j) = charge oion))"
proof (intro conjI allI impI)
  show "instantiate be ident shared overrides pos_data this = Inl Missing_ion \<longleftrightarrow>
     (\<exists>i \<in> set (mech_ions (mech this)).
        ion_data shared
          (case ion_rebind overrides (ion_name i) of Some b \<Rightarrow> b | None \<Rightarrow> ion_name i) = None)"
    using instantiate_Missing_iff[of be ident shared overrides pos_data this]
    by (simp add: ion_binding_of_def)
next
  fix m assume inst: "instantiate be ident shared overrides pos_data this = Inr m"
  show "length (ion_states_h m) = length (mech_ions (mech this))"
    by (rule instantiate_ion_states(1)[OF inst])
next
  fix m j assume inst: "instantiate be ident shared overrides pos_data this = Inr m"
    and j: "j < length (mech_ions (mech this))"
  let ?r = "ion_states_h m ! j"
  from instantiate_ion_states(2)[OF inst j] obtain oion where
    o: "ion_data shared (ion_binding_of overrides (ion_name (mech_ions (mech this) ! j)))
          = Some oion"
    and r: "?r\<lparr>index := Null\<rparr> = braced_ion_state oion" by blast
  have "current_density (?r\<lparr>index := Null\<rparr>) = iX oion"
    "reversal_potential (?r\<lparr>index := Null\<rparr>) = eX oion"
    "internal_concentration (?r\<lparr>index := Null\<rparr>) = Xi oion"
    "external_concentration (?r\<lparr>index := Null\<rparr>) = Xo oion"
    "ionic_charge (?r\<lparr>index := Null\<rparr>) = charge oion"
    unfolding r by (simp_all add: braced_ion_state_def)
  then have "current_density ?r = iX oion" "reversal_potential ?r = eX oion"
    "internal_concentration ?r = Xi oion" "external_concentration ?r = Xo oion"
    "ionic_charge ?r = charge oion" by simp_all
  with o show "\<exists>oion.
                ion_data shared
                  (case ion_rebind overrides (ion_name (mech_ions (mech this) ! j)) of
                     Some b \<Rightarrow> b
                   | None \<Rightarrow> ion_name (mech_ions (mech this) ! j)) = Some oion
                \<and> current_density ?r = iX oion
                \<and> reversal_potential ?r = eX oion
                \<and> internal_concentration ?r = Xi oion
                \<and> external_concentration ?r = Xo oion
                \<and> ionic_charge ?r = charge oion"
    by (auto simp: ion_binding_of_def)
qed

theorem missing_ion_iff_witness:
  "instantiate \<lparr>array_alignment = 4, iarray_alignment = 4\<rparr> 0 (example_shared Map.empty)
     \<lparr>overrides_globals = [], ion_rebind = [''x'' \<mapsto> ''ca'']\<rparr>
     \<lparr>cv = [3], weight = [Val 1], multiplicity = []\<rparr> (fresh_mechanism schema_psx)
   = Inl Missing_ion
   \<and> (\<exists>m. instantiate \<lparr>array_alignment = 4, iarray_alignment = 4\<rparr> 0
             (example_shared [''ca'' \<mapsto> example_ca])
             \<lparr>overrides_globals = [], ion_rebind = [''x'' \<mapsto> ''ca'']\<rparr>
             \<lparr>cv = [3], weight = [Val 1], multiplicity = []\<rparr> (fresh_mechanism schema_psx)
           = Inr m
         \<and> internal_concentration (ion_states_h m ! 0) = Xi example_ca
         \<and> external_concentration (ion_states_h m ! 0) = Xo example_ca)"
proof -
  let ?be = "\<lparr>array_alignment = 4, iarray_alignment = 4\<rparr>"
  let ?ov = "\<lparr>overrides_globals = [], ion_rebind = [''x'' \<mapsto> ''ca'']\<rparr>"
  let ?pos = "\<lparr>cv = [3], weight = [Val 1], multiplicity = []\<rparr>"
  let ?obj = "fresh_mechanism schema_psx"
  let ?sh = "example_shared [''ca'' \<mapsto> example_ca]"
  have absent: "instantiate ?be 0 (example_shared Map.empty) ?ov ?pos ?obj = Inl Missing_ion"
    using missing_ion_iff[THEN conjunct1, of ?be 0 "example_shared Map.empty" ?ov ?pos ?obj]
    by (simp add: fresh_mechanism_def schema_psx_def example_shared_def)
  have "\<exists>m. instantiate ?be 0 ?sh ?ov ?pos ?obj = Inr m"
    by (simp add: example_defs instantiate_defs)
  then obtain m where m: "instantiate ?be 0 ?sh ?ov ?pos ?obj = Inr m" by blast
  have j: "0 < length (mech_ions (mech ?obj))" by (simp add: fresh_mechanism_def schema_psx_def)
  from missing_ion_iff[THEN conjunct2, of ?be 0 ?sh ?ov ?pos ?obj] m j
  obtain oion where
    o: "ion_data ?sh (case ion_rebind ?ov (ion_name (mech_ions (mech ?obj) ! 0)) of
                        Some b \<Rightarrow> b | None \<Rightarrow> ion_name (mech_ions (mech ?obj) ! 0)) = Some oion"
    and xi: "internal_concentration (ion_states_h m ! 0) = Xi oion"
    and xo: "external_concentration (ion_states_h m ! 0) = Xo oion"
    by blast
  from o have "oion = example_ca"
    by (simp add: fresh_mechanism_def schema_psx_def example_shared_def)
  with absent m xi xo show ?thesis by blast
qed

subsection \<open>C7: the gate and the effect of the scaling step\<close>

text \<open>
  C7, as the claim states it. Two sites, each with multiplicity one: no site has a
  multiplicity greater than one, and yet \<open>mult_in_place\<close> is set, so \<^verbatim>\<open>initialize\<close>
  does not return on line 264 and runs the scaling loop; the products by one leave the
  values as they are. A multiplicity that is neither one nor greater, which the index
  type admits, shows the loop in the stored value: with the single multiplicity 0 and a
  kernel that writes nothing, the state variable goes from its default 4 to 0, although
  no site has a multiplicity greater than one.
\<close>

theorem scaling_without_multiplicity_above_one:
  "\<not> any_multiplicity_above_one
        \<lparr>cv = [3, 7], weight = [Val 1, Val 1], multiplicity = [1, 1]\<rparr>
   \<and> (case instantiate \<lparr>array_alignment = 4, iarray_alignment = 4\<rparr> 0
           (example_shared [''ca'' \<mapsto> example_ca])
           \<lparr>overrides_globals = [], ion_rebind = [''x'' \<mapsto> ''ca'']\<rparr>
           \<lparr>cv = [3, 7], weight = [Val 1, Val 1], multiplicity = [1, 1]\<rparr>
           (fresh_mechanism schema_psx) of
      Inl e \<Rightarrow> False
    | Inr m \<Rightarrow> mult_in_place m)
   \<and> \<not> any_multiplicity_above_one \<lparr>cv = [3], weight = [Val 1], multiplicity = [0]\<rparr>
   \<and> (case instantiate \<lparr>array_alignment = 4, iarray_alignment = 4\<rparr> 0
           (example_shared [''ca'' \<mapsto> example_ca])
           \<lparr>overrides_globals = [], ion_rebind = [''x'' \<mapsto> ''ca'']\<rparr>
           \<lparr>cv = [3], weight = [Val 1], multiplicity = [0]\<rparr>
           (fresh_mechanism schema_psx) of
      Inl e \<Rightarrow> False
    | Inr m \<Rightarrow>
        (case initialize (\<lambda>pp d c. d ! c) (Shared_at 10) m of
           Inl e \<Rightarrow> False
         | Inr m' \<Rightarrow>
             state_vars_h m = [Data_at 2] \<and> data m ! 2 = Val 4 \<and> data m' ! 2 = Val 0))"
  by (simp add: any_multiplicity_above_one_def example_defs instantiate_defs
        initialize_def run_kernel_def set_time_ptr_def scaling_step_def multiply_in_place_def
        upt_rec)

text \<open>
  C7, amended. On an instance that \<^verbatim>\<open>instantiate\<close> built from a placement whose
  multiplicity sequence is empty or as long as its site sequence, \<open>mult_in_place\<close> is set
  exactly when the multiplicity sequence is not empty. \<^verbatim>\<open>initialize\<close> succeeds; with
  no multiplicities it ends with what the generated kernel left, and with multiplicities
  the cell of site \<open>i\<close> in the chunk of every state variable ends as the product of
  what the kernel left there and the multiplicity of site \<open>i\<close>: a value \<open>x\<close> ends as
  \<open>x * m\<close>.
\<close>

theorem initialize_scales_by_multiplicity:
  assumes inst: "instantiate be ident shared overrides pos_data this = Inr m"
    and len: "multiplicity pos_data = []
              \<or> length (multiplicity pos_data) = length (cv pos_data)"
  shows "mult_in_place m = (multiplicity pos_data \<noteq> [])
     \<and> (\<exists>m'. initialize init_mechanism clock m = Inr m'
          \<and> (multiplicity pos_data = [] \<longrightarrow>
                m' = run_kernel init_mechanism (set_time_ptr clock m))
          \<and> (multiplicity pos_data \<noteq> [] \<longrightarrow>
               (\<forall>j < length (mech_state_vars (mech this)). \<forall>i < length (cv pos_data).
                  \<exists>k. state_vars_h m ! j = Data_at k
                    \<and> data m' ! (k + i)
                        = fmul (data (run_kernel init_mechanism (set_time_ptr clock m)) ! (k + i))
                            (Some (multiplicity pos_data ! i))
                    \<and> (\<forall>x. data (run_kernel init_mechanism (set_time_ptr clock m)) ! (k + i)
                              = Val x \<longrightarrow>
                            data m' ! (k + i)
                              = Val (x * of_int (multiplicity pos_data ! i))))))"
proof (intro conjI)
  show "mult_in_place m = (multiplicity pos_data \<noteq> [])"
    by (rule instantiate_mult_in_place[OF inst])
next
  let ?w = "length (cv pos_data)"
  let ?np = "length (mech_parameters (mech this))"
  let ?ns = "length (mech_state_vars (mech this))"
  let ?ni = "length (mech_ions (mech this))"
  let ?mk = "run_kernel init_mechanism (set_time_ptr clock m)"
  show "\<exists>m'. initialize init_mechanism clock m = Inr m'
          \<and> (multiplicity pos_data = [] \<longrightarrow> m' = ?mk)
          \<and> (multiplicity pos_data \<noteq> [] \<longrightarrow>
               (\<forall>j < ?ns. \<forall>i < ?w.
                  \<exists>k. state_vars_h m ! j = Data_at k
                    \<and> data m' ! (k + i) = fmul (data ?mk ! (k + i)) (Some (multiplicity pos_data ! i))
                    \<and> (\<forall>x. data ?mk ! (k + i) = Val x \<longrightarrow>
                            data m' ! (k + i) = Val (x * of_int (multiplicity pos_data ! i)))))"
  proof (cases "multiplicity pos_data = []")
    case True
    then have "\<not> mult_in_place ?mk" using instantiate_mult_in_place[OF inst] by simp
    then have "initialize init_mechanism clock m = Inr ?mk" by (simp add: initialize_def Let_def)
    then show ?thesis using True by simp
  next
    case False
    with len have mu: "length (multiplicity pos_data) = ?w" by simp
    with False have ne: "cv pos_data \<noteq> []" by auto
    note L = instantiate_Inr[OF inst ne]
    from initialize_after_instantiate[OF inst ne False, of init_mechanism clock]
    obtain d' where
      i: "initialize init_mechanism clock m = Inr (?mk\<lparr>data := d'\<rparr>)"
      and c: "\<forall>c < length (data m). d' ! c =
           (if (1 + ?np) * ?w \<le> c \<and> c < (1 + ?np + ?ns) * ?w
            then fmul (data ?mk ! c)
                   (indices m ! ((1 + ?ni) * ?w + (c - (1 + ?np) * ?w) mod ?w))
            else data ?mk ! c)"
      by blast
    have cells: "\<forall>j < ?ns. \<forall>i < ?w.
                  \<exists>k. state_vars_h m ! j = Data_at k
                    \<and> d' ! (k + i) = fmul (data ?mk ! (k + i)) (Some (multiplicity pos_data ! i))
                    \<and> (\<forall>x. data ?mk ! (k + i) = Val x \<longrightarrow>
                            d' ! (k + i) = Val (x * of_int (multiplicity pos_data ! i)))"
    proof (intro allI impI)
      fix j i assume j: "j < ?ns" and iw: "i < ?w"
      let ?k = "(1 + ?np + j) * ?w"
      have p: "state_vars_h m ! j = Data_at ?k" using L(7) j by simp
      have lo: "(1 + ?np) * ?w \<le> ?k + i" by (simp add: algebra_simps)
      have "Suc j * ?w \<le> ?ns * ?w" using j by (intro mult_le_mono1) simp
      then have hi: "?k + i < (1 + ?np + ?ns) * ?w" using iw by (simp add: algebra_simps)
      have "(1 + ?np + ?ns) * ?w \<le> length (data m)" using L(12) by simp
      with hi have inb: "?k + i < length (data m)" by simp
      have "?k + i - (1 + ?np) * ?w = j * ?w + i" by (simp add: algebra_simps)
      then have md: "(?k + i - (1 + ?np) * ?w) mod ?w = i" using iw by simp
      have "d' ! (?k + i) = fmul (data ?mk ! (?k + i))
                   (indices m ! ((1 + ?ni) * ?w + (?k + i - (1 + ?np) * ?w) mod ?w))"
        using c inb lo hi by simp
      also have "\<dots> = fmul (data ?mk ! (?k + i)) (Some (multiplicity pos_data ! i))"
        using md multiplicity_cell[OF inst ne mu iw] by simp
      finally have v: "d' ! (?k + i)
                         = fmul (data ?mk ! (?k + i)) (Some (multiplicity pos_data ! i))" .
      then have "\<forall>x. data ?mk ! (?k + i) = Val x \<longrightarrow>
                            d' ! (?k + i) = Val (x * of_int (multiplicity pos_data ! i))"
        by simp
      with p v show "\<exists>k. state_vars_h m ! j = Data_at k
                    \<and> d' ! (k + i) = fmul (data ?mk ! (k + i)) (Some (multiplicity pos_data ! i))
                    \<and> (\<forall>x. data ?mk ! (k + i) = Val x \<longrightarrow>
                            d' ! (k + i) = Val (x * of_int (multiplicity pos_data ! i)))"
        by blast
    qed
    show ?thesis
      apply (rule exI[of _ "?mk\<lparr>data := d'\<rparr>"])
      using i False cells by simp
  qed
qed

theorem initialize_scales_by_multiplicity_witness:
  "\<exists>m m' k. instantiate \<lparr>array_alignment = 4, iarray_alignment = 4\<rparr> 0
           (example_shared [''ca'' \<mapsto> example_ca])
           \<lparr>overrides_globals = [], ion_rebind = [''x'' \<mapsto> ''ca'']\<rparr>
           \<lparr>cv = [3, 7, 2], weight = [Val 1, Val 1, Val 1], multiplicity = [2, 1, 3]\<rparr>
           (fresh_mechanism schema_psx) = Inr m
      \<and> mult_in_place m
      \<and> initialize (\<lambda>pp d c. d ! c) (Shared_at 10) m = Inr m'
      \<and> state_vars_h m ! 0 = Data_at k
      \<and> data m' ! (k + 2)
           = fmul (data (run_kernel (\<lambda>pp d c. d ! c) (set_time_ptr (Shared_at 10) m)) ! (k + 2))
               (Some 3)"
proof -
  let ?pos = "\<lparr>cv = [3, 7, 2], weight = [Val 1, Val 1, Val 1], multiplicity = [2, 1, 3]\<rparr>"
  let ?obj = "fresh_mechanism schema_psx"
  have "\<exists>m. instantiate \<lparr>array_alignment = 4, iarray_alignment = 4\<rparr> 0
           (example_shared [''ca'' \<mapsto> example_ca])
           \<lparr>overrides_globals = [], ion_rebind = [''x'' \<mapsto> ''ca'']\<rparr> ?pos ?obj = Inr m"
    by (simp add: example_defs instantiate_defs)
  then obtain m where m: "instantiate \<lparr>array_alignment = 4, iarray_alignment = 4\<rparr> 0
           (example_shared [''ca'' \<mapsto> example_ca])
           \<lparr>overrides_globals = [], ion_rebind = [''x'' \<mapsto> ''ca'']\<rparr> ?pos ?obj = Inr m"
    by blast
  have len: "multiplicity ?pos = [] \<or> length (multiplicity ?pos) = length (cv ?pos)" by simp
  have ne: "multiplicity ?pos \<noteq> []" by simp
  have j: "0 < length (mech_state_vars (mech ?obj))"
    by (simp add: fresh_mechanism_def schema_psx_def)
  have i: "2 < length (cv ?pos)" by simp
  have mi: "multiplicity ?pos ! 2 = 3" by simp
  from initialize_scales_by_multiplicity[OF m len, of "\<lambda>pp d c. d ! c" "Shared_at 10"] ne
  obtain m' where
    a: "mult_in_place m"
    and b: "initialize (\<lambda>pp d c. d ! c) (Shared_at 10) m = Inr m'"
    and c: "\<forall>j < length (mech_state_vars (mech ?obj)). \<forall>i < length (cv ?pos).
                  \<exists>k. state_vars_h m ! j = Data_at k
                    \<and> data m' ! (k + i)
                        = fmul (data (run_kernel (\<lambda>pp d c. d ! c)
                                        (set_time_ptr (Shared_at 10) m)) ! (k + i))
                            (Some (multiplicity ?pos ! i))
                    \<and> (\<forall>x. data (run_kernel (\<lambda>pp d c. d ! c)
                                        (set_time_ptr (Shared_at 10) m)) ! (k + i) = Val x \<longrightarrow>
                            data m' ! (k + i) = Val (x * of_int (multiplicity ?pos ! i)))"
    by blast
  from c j i obtain k where
    "state_vars_h m ! 0 = Data_at k"
    "data m' ! (k + 2)
       = fmul (data (run_kernel (\<lambda>pp d c. d ! c) (set_time_ptr (Shared_at 10) m)) ! (k + 2))
           (Some (multiplicity ?pos ! 2))"
    by blast
  with m a b mi show ?thesis by auto
qed

subsection \<open>C8: writes stay inside their buffer\<close>

text \<open>
  C8. Every copy and fill of the model is a checked write into its buffer, and
  \<^verbatim>\<open>instantiate\<close> never ends in \<open>Buffer_overrun\<close>, for every schema, placement,
  override set and shared state, on a backend whose alignment is positive. The final
  \<^verbatim>\<open>base_ptr\<close> of the value block lies within the
  \<open>(n_state_vars + n_parameters + 1) * width_padded + n_globals\<close> cells of \<^verbatim>\<open>data_\<close>,
  and that of the index block within the \<open>(mult + n_ions + 1) * width_padded\<close> cells of
  \<^verbatim>\<open>indices_\<close>.
\<close>

theorem instantiate_writes_in_bounds:
  assumes "0 < max (array_alignment be) (iarray_alignment be)"
  shows "instantiate be ident shared overrides pos_data this \<noteq> Inl Buffer_overrun
    \<and> (\<forall>m1 m2 e. pack_values overrides pos_data m1 = Inr (m2, e) \<longrightarrow>
           e \<le> length (data m2)
         \<and> length (data m2)
             = (length (mech_state_vars (mech m1)) + length (mech_parameters (mech m1)) + 1)
                 * width_padded m1 + length (mech_globals (mech m1)))
    \<and> (\<forall>m1 m2 e. pack_indices shared overrides pos_data m1 = Inr (m2, e) \<longrightarrow>
           e \<le> length (indices m2)
         \<and> length (indices m2)
             = ((if mult_in_place m1 then 1 else 0) + length (mech_ions (mech m1)) + 1)
                 * width_padded m1)"
proof (intro conjI allI impI)
  show "instantiate be ident shared overrides pos_data this \<noteq> Inl Buffer_overrun"
    by (rule instantiate_no_overrun[OF assms])
next
  fix m1 m2 e assume "pack_values overrides pos_data m1 = Inr (m2, e)"
  from pack_values_end[OF this]
  show "e \<le> length (data m2)"
    and "length (data m2)
             = (length (mech_state_vars (mech m1)) + length (mech_parameters (mech m1)) + 1)
                 * width_padded m1 + length (mech_globals (mech m1))"
    by (simp_all add: value_count_def)
next
  fix m1 m2 e assume "pack_indices shared overrides pos_data m1 = Inr (m2, e)"
  from pack_indices_Inr[OF this]
  have "e \<le> length (indices m2)" and "length (indices m2) = index_count m1" by blast+
  then show "e \<le> length (indices m2)"
    and "length (indices m2)
             = ((if mult_in_place m1 then 1 else 0) + length (mech_ions (mech m1)) + 1)
                 * width_padded m1"
    by (simp_all add: index_count_def)
qed

theorem instantiate_writes_in_bounds_witness:
  "0 < max (array_alignment \<lparr>array_alignment = 4, iarray_alignment = 2\<rparr>)
           (iarray_alignment \<lparr>array_alignment = 4, iarray_alignment = 2\<rparr>)
   \<and> instantiate \<lparr>array_alignment = 4, iarray_alignment = 2\<rparr> 0
       (example_shared [''ca'' \<mapsto> example_ca])
       \<lparr>overrides_globals = [], ion_rebind = [''x'' \<mapsto> ''ca'']\<rparr>
       \<lparr>cv = [3, 7, 2], weight = [Val 1, Val 1, Val 1], multiplicity = [2, 1, 3]\<rparr>
       (fresh_mechanism schema_psx)
     \<noteq> Inl Buffer_overrun"
proof -
  have a: "0 < max (array_alignment \<lparr>array_alignment = 4, iarray_alignment = 2\<rparr>)
           (iarray_alignment \<lparr>array_alignment = 4, iarray_alignment = 2\<rparr>)" by simp
  from instantiate_writes_in_bounds[OF a] a show ?thesis by blast
qed

subsection \<open>C9: the frame of the scaling step\<close>

text \<open>
  C9. On an instance that \<^verbatim>\<open>instantiate\<close> built, \<^verbatim>\<open>initialize\<close> succeeds, and what its
  scaling step changes of the instance that the clock refresh and the generated kernel
  left is cells of the value buffer between the start of the first state-variable chunk
  and the end of the last one. Every other member, the index buffer and the host-side and
  device-side tables among them, is unchanged, and so is every cell of the value buffer
  before and after the state-variable chunks: the weight chunk, which starts at 0, the
  parameter chunks, which follow it, and the globals and whatever follows them.
\<close>

theorem scaling_step_frame:
  assumes inst: "instantiate be ident shared overrides pos_data this = Inr m"
  shows "\<exists>m'. initialize init_mechanism clock m = Inr m'
     \<and> m' = (run_kernel init_mechanism (set_time_ptr clock m))\<lparr>data := data m'\<rparr>
     \<and> length (data m') = length (data m)
     \<and> (\<forall>c < length (data m).
           c < (1 + length (mech_parameters (mech this))) * length (cv pos_data)
           \<or> (1 + length (mech_parameters (mech this)) + length (mech_state_vars (mech this)))
                 * length (cv pos_data) \<le> c \<longrightarrow>
           data m' ! c = data (run_kernel init_mechanism (set_time_ptr clock m)) ! c)
     \<and> (cv pos_data \<noteq> [] \<longrightarrow>
           ppack_weight (ppack m) = Data_at 0
         \<and> parameters_h m
             = map (\<lambda>j. Data_at ((1 + j) * length (cv pos_data)))
                 [0 ..< length (mech_parameters (mech this))]
         \<and> state_vars_h m
             = map (\<lambda>j. Data_at ((1 + length (mech_parameters (mech this)) + j)
                                   * length (cv pos_data)))
                 [0 ..< length (mech_state_vars (mech this))]
         \<and> ppack_globals (ppack m)
             = Data_at ((1 + length (mech_parameters (mech this))
                           + length (mech_state_vars (mech this))) * length (cv pos_data)))"
proof -
  let ?w = "length (cv pos_data)"
  let ?np = "length (mech_parameters (mech this))"
  let ?ns = "length (mech_state_vars (mech this))"
  let ?mk = "run_kernel init_mechanism (set_time_ptr clock m)"
  have layout: "cv pos_data \<noteq> [] \<longrightarrow>
           ppack_weight (ppack m) = Data_at 0
         \<and> parameters_h m = map (\<lambda>j. Data_at ((1 + j) * ?w)) [0 ..< ?np]
         \<and> state_vars_h m = map (\<lambda>j. Data_at ((1 + ?np + j) * ?w)) [0 ..< ?ns]
         \<and> ppack_globals (ppack m) = Data_at ((1 + ?np + ?ns) * ?w)"
    using instantiate_Inr(6,7,8,9)[OF inst] by blast
  have "\<exists>d'. initialize init_mechanism clock m = Inr (?mk\<lparr>data := d'\<rparr>)
          \<and> length d' = length (data m)
          \<and> (\<forall>c < length (data m).
                c < (1 + ?np) * ?w \<or> (1 + ?np + ?ns) * ?w \<le> c \<longrightarrow> d' ! c = data ?mk ! c)"
  proof (cases "cv pos_data \<noteq> [] \<and> multiplicity pos_data \<noteq> []")
    case True
    from initialize_after_instantiate[OF inst, of init_mechanism clock] True
    obtain d' where
      "initialize init_mechanism clock m = Inr (?mk\<lparr>data := d'\<rparr>)"
      "length d' = length (data m)"
      "\<forall>c < length (data m). d' ! c =
           (if (1 + ?np) * ?w \<le> c \<and> c < (1 + ?np + ?ns) * ?w
            then fmul (data ?mk ! c)
                   (indices m ! ((1 + length (mech_ions (mech this))) * ?w
                                   + (c - (1 + ?np) * ?w) mod ?w))
            else data ?mk ! c)"
      by blast
    then show ?thesis by (intro exI[of _ d']) auto
  next
    case False
    have "initialize init_mechanism clock m = Inr ?mk"
    proof (cases "cv pos_data = []")
      case True
      then show ?thesis by (rule initialize_zero_width[OF inst])
    next
      case ne: False
      with False have "multiplicity pos_data = []" by simp
      then have "\<not> mult_in_place ?mk" using instantiate_mult_in_place[OF inst] by simp
      then show ?thesis by (simp add: initialize_def Let_def)
    qed
    then show ?thesis by (intro exI[of _ "data ?mk"]) simp
  qed
  then obtain d' where
    i: "initialize init_mechanism clock m = Inr (?mk\<lparr>data := d'\<rparr>)"
    and l: "length d' = length (data m)"
    and c: "\<forall>c < length (data m).
                c < (1 + ?np) * ?w \<or> (1 + ?np + ?ns) * ?w \<le> c \<longrightarrow> d' ! c = data ?mk ! c"
    by blast
  show ?thesis
    apply (rule exI[of _ "?mk\<lparr>data := d'\<rparr>"])
    using i l c layout by simp
qed

theorem scaling_step_frame_witness:
  "\<exists>m m'. instantiate \<lparr>array_alignment = 4, iarray_alignment = 4\<rparr> 0
           (example_shared [''ca'' \<mapsto> example_ca])
           \<lparr>overrides_globals = [], ion_rebind = [''x'' \<mapsto> ''ca'']\<rparr>
           \<lparr>cv = [3, 7, 2], weight = [Val 1, Val 1, Val 1], multiplicity = [2, 1, 3]\<rparr>
           (fresh_mechanism schema_psx) = Inr m
      \<and> initialize (\<lambda>pp d c. d ! c) (Shared_at 10) m = Inr m'
      \<and> m' = (run_kernel (\<lambda>pp d c. d ! c) (set_time_ptr (Shared_at 10) m))\<lparr>data := data m'\<rparr>
      \<and> length (data m') = length (data m)"
proof -
  let ?pos = "\<lparr>cv = [3, 7, 2], weight = [Val 1, Val 1, Val 1], multiplicity = [2, 1, 3]\<rparr>"
  let ?obj = "fresh_mechanism schema_psx"
  have "\<exists>m. instantiate \<lparr>array_alignment = 4, iarray_alignment = 4\<rparr> 0
           (example_shared [''ca'' \<mapsto> example_ca])
           \<lparr>overrides_globals = [], ion_rebind = [''x'' \<mapsto> ''ca'']\<rparr> ?pos ?obj = Inr m"
    by (simp add: example_defs instantiate_defs)
  then obtain m where m: "instantiate \<lparr>array_alignment = 4, iarray_alignment = 4\<rparr> 0
           (example_shared [''ca'' \<mapsto> example_ca])
           \<lparr>overrides_globals = [], ion_rebind = [''x'' \<mapsto> ''ca'']\<rparr> ?pos ?obj = Inr m"
    by blast
  from scaling_step_frame[OF m, of "\<lambda>pp d c. d ! c" "Shared_at 10"] m
  show ?thesis by blast
qed

subsection \<open>C10: overrides of a schema without globals\<close>

text \<open>
  C10. When the schema declares no global, \<^verbatim>\<open>instantiate\<close> never throws the
  unknown-override error, whatever the override set holds, and its result is the one it
  gives for the empty override set: every entry is ignored.
\<close>

theorem no_globals_overrides_ignored:
  assumes "mech_globals (mech this) = []"
  shows "instantiate be ident shared (overrides\<lparr>overrides_globals := g\<rparr>) pos_data this
           \<noteq> Inl (No_such_global k)
       \<and> instantiate be ident shared (overrides\<lparr>overrides_globals := g\<rparr>) pos_data this
           = instantiate be ident shared (overrides\<lparr>overrides_globals := []\<rparr>) pos_data this"
  using instantiate_no_globals[OF assms] instantiate_no_globals_error[OF assms] by simp

theorem no_globals_overrides_ignored_witness:
  "mech_globals (mech (fresh_mechanism schema_p)) = []
   \<and> instantiate \<lparr>array_alignment = 4, iarray_alignment = 4\<rparr> 0 (example_shared Map.empty)
       \<lparr>overrides_globals = [(''c'', Val 9)], ion_rebind = Map.empty\<rparr>
       \<lparr>cv = [3], weight = [Val 1], multiplicity = []\<rparr> (fresh_mechanism schema_p)
     \<noteq> Inl (No_such_global ''c'')
   \<and> instantiate \<lparr>array_alignment = 4, iarray_alignment = 4\<rparr> 0 (example_shared Map.empty)
       \<lparr>overrides_globals = [(''c'', Val 9)], ion_rebind = Map.empty\<rparr>
       \<lparr>cv = [3], weight = [Val 1], multiplicity = []\<rparr> (fresh_mechanism schema_p)
     = instantiate \<lparr>array_alignment = 4, iarray_alignment = 4\<rparr> 0 (example_shared Map.empty)
       \<lparr>overrides_globals = [], ion_rebind = Map.empty\<rparr>
       \<lparr>cv = [3], weight = [Val 1], multiplicity = []\<rparr> (fresh_mechanism schema_p)"
proof -
  have g: "mech_globals (mech (fresh_mechanism schema_p)) = []"
    by (simp add: fresh_mechanism_def schema_p_def)
  have e1: "\<lparr>overrides_globals = [], ion_rebind = Map.empty\<rparr>\<lparr>overrides_globals := [(''c'', Val 9)]\<rparr>
               = \<lparr>overrides_globals = [(''c'', Val 9)], ion_rebind = Map.empty\<rparr>"
    and e2: "\<lparr>overrides_globals = [], ion_rebind = Map.empty\<rparr>\<lparr>overrides_globals := []\<rparr>
               = \<lparr>overrides_globals = [], ion_rebind = Map.empty :: string \<rightharpoonup> string\<rparr>"
    by simp_all
  from no_globals_overrides_ignored[OF g,
         where be = "\<lparr>array_alignment = 4, iarray_alignment = 4\<rparr>" and ident = 0
           and shared = "example_shared Map.empty"
           and overrides = "\<lparr>overrides_globals = [], ion_rebind = Map.empty\<rparr>"
           and g = "[(''c'', Val 9)]"
           and pos_data = "\<lparr>cv = [3], weight = [Val 1], multiplicity = []\<rparr>"
           and k = "''c''", unfolded e1 e2]
  show ?thesis using g by blast
qed

end
